theory Spec2Isabelle
  imports Complex_Main
begin

section \<open>The autobridge calculator of \<^verbatim>\<open>src/js/ripple/autobridgecalculator.js\<close>\<close>

text \<open>
  The calculator merges two sorted offer lists through a bridge currency. It mutates its
  private copies of the offers and a ledger of leftover owner funds; the model passes the
  engine, the current offers and the ledger explicitly and returns them updated. Every
  \<^verbatim>\<open>assert\<close> and every throwing call of the source is a branch returning \<open>Inl\<close>.
\<close>

subsection \<open>External collaborators\<close>

text \<open>
  Modelled from the spec: the module \<^verbatim>\<open>./amount\<close> is not among the sources. The spec
  describes Amount as an exact arbitrary-precision decimal with add, subtract, multiply,
  divide, ordering comparison, zero test and canonical text form. An Amount is modelled by
  the rational number it denotes; the currency tag plays no part in the calculator's
  arithmetic. Exact division has no value at a zero divisor, so \<open>amount_divide\<close> fails
  there. The canonical text of an amount is modelled by the number it spells, wrapped in
  its own type so that a text and an Amount object stay distinct values.
\<close>

type_synonym amount = rat

datatype amount_text = Text rat

datatype error = AssertionError string | DivideByZero | InvalidAmount

definition to_text :: "amount \<Rightarrow> amount_text" where
  "to_text a = Text a"

fun from_text :: "amount_text \<Rightarrow> amount" where
  "from_text (Text v) = v"

definition amount_add :: "amount \<Rightarrow> amount \<Rightarrow> amount" where
  "amount_add a b = a + b"

definition amount_subtract :: "amount \<Rightarrow> amount \<Rightarrow> amount" where
  "amount_subtract a b = a - b"

definition amount_multiply :: "amount \<Rightarrow> amount \<Rightarrow> amount" where
  "amount_multiply a b = a * b"

definition amount_divide :: "amount \<Rightarrow> amount \<Rightarrow> error + amount" where
  "amount_divide a b = (if b = 0 then Inl DivideByZero else Inr (a / b))"

definition compareTo :: "amount \<Rightarrow> amount \<Rightarrow> int" where
  "compareTo a b = (if a < b then - 1 else if a = b then 0 else 1)"

definition is_zero :: "amount \<Rightarrow> bool" where
  "is_zero a = (a = 0)"

text \<open>
  Modelled from the spec: the Currency class is not among the sources; the calculator only
  asks a currency for its hex form.
\<close>

datatype currency = Currency (to_hex: string)

text \<open>
  The values an offer's \<^verbatim>\<open>TakerGets\<close> and \<^verbatim>\<open>TakerPays\<close> properties hold: a native
  amount is a numeric string, an issued amount is an object \<^verbatim>\<open>{value, currency, issuer}\<close>,
  and \<^verbatim>\<open>setLegOneTakerGets\<close> stores an Amount instance. The same object shape is what
  \<^verbatim>\<open>formatAutobridgedOffer\<close> emits; its issuer is optional because the source reads it
  from a property that may be undefined.
\<close>

record issued =
  "value" :: amount_text
  currency :: string
  issuer :: "string option"

datatype amount_json = Native amount_text | Issued issued | AmountObject amount

record offer =
  Account :: string
  TakerGets :: amount_json
  TakerPays :: amount_json
  quality :: amount_text
  taker_gets_funded :: amount_text
  taker_pays_funded :: amount_text
  is_fully_funded :: bool
  initTakerGetsFunded :: "amount option"

text \<open>The reading of an amount from JSON or from an Amount instance (\<^verbatim>\<open>Amount.from_json\<close>).\<close>

fun from_json :: "amount_json \<Rightarrow> amount" where
  "from_json (Native t) = from_text t"
| "from_json (Issued obj) = from_text (value obj)"
| "from_json (AmountObject a) = a"

text \<open>\<^verbatim>\<open>typeof x === 'object'\<close> on such a value: a numeric string is not an object.\<close>

fun typeof_object :: "amount_json \<Rightarrow> bool" where
  "typeof_object (Native t) = False"
| "typeof_object (Issued obj) = True"
| "typeof_object (AmountObject a) = True"

text \<open>
  \<^verbatim>\<open>!_.isNull(number) && !isNaN(number)\<close>: a numeric string converts to a number; an
  object converts to NaN.
\<close>

fun validNumber :: "amount_json \<Rightarrow> bool" where
  "validNumber (Native t) = True"
| "validNumber (Issued obj) = False"
| "validNumber (AmountObject a) = False"

text \<open>
  The property read \<^verbatim>\<open>x.value\<close>: only the issued object has such a property; on a string
  or an Amount instance the read gives undefined (\<open>None\<close>).
\<close>

fun value_property :: "amount_json \<Rightarrow> amount_text option" where
  "value_property (Native t) = None"
| "value_property (Issued obj) = Some (value obj)"
| "value_property (AmountObject a) = None"

text \<open>
  Modelled from the spec: the module \<^verbatim>\<open>./orderbookutils\<close> is not among the sources. The
  spec describes its accessors as pure functions returning an offer's funded
  takerGets/takerPays, its nominal takerGets and its normalized quality; the quality is the
  one recorded in the offer.
\<close>

definition normalizeAmount :: "amount_text \<Rightarrow> amount" where
  "normalizeAmount t = from_text t"

definition getOfferTakerGetsFunded :: "offer \<Rightarrow> amount" where
  "getOfferTakerGetsFunded off = from_text (taker_gets_funded off)"

definition getOfferTakerPaysFunded :: "offer \<Rightarrow> amount" where
  "getOfferTakerPaysFunded off = from_text (taker_pays_funded off)"

definition getOfferTakerGets :: "offer \<Rightarrow> amount" where
  "getOfferTakerGets off = from_json (TakerGets off)"

definition getOfferQuality :: "offer \<Rightarrow> currency \<Rightarrow> amount" where
  "getOfferQuality off currencyGets = normalizeAmount (quality off)"

text \<open>
  Modelled from the spec: \<^verbatim>\<open>Utils.convertOfferQualityToHex\<close> is a deterministic encoder of
  a quality into a book directory key; the key is represented by the quality it encodes.
\<close>

datatype directory = QualityHex amount

definition convertOfferQualityToHex :: "amount \<Rightarrow> directory" where
  "convertOfferQualityToHex q = QualityHex q"

subsection \<open>Sequencing of calls that may throw\<close>

definition bind :: "error + 'a \<Rightarrow> ('a \<Rightarrow> error + 'b) \<Rightarrow> error + 'b" where
  "bind m f = (case m of Inl err \<Rightarrow> Inl err | Inr v \<Rightarrow> f v)"

definition assert :: "bool \<Rightarrow> string \<Rightarrow> error + unit" where
  "assert c message = (if c then Inr () else Inl (AssertionError message))"

subsection \<open>The engine\<close>

text \<open>
  The emitted composite offer. \<^verbatim>\<open>taker_gets_funded\<close> and \<^verbatim>\<open>taker_pays_funded\<close> of the
  emitted object are the fields \<open>ab_taker_gets_funded\<close> and \<open>ab_taker_pays_funded\<close>.
\<close>

record autobridged_offer =
  ab_TakerGets :: issued
  ab_TakerPays :: issued
  ab_quality :: amount_text
  ab_taker_gets_funded :: amount_text
  ab_taker_pays_funded :: amount_text
  autobridged :: bool
  BookDirectory :: directory

text \<open>
  The calculator object. The constructor assigns \<^verbatim>\<open>_currencyGets\<close>, \<^verbatim>\<open>_currencyPays\<close>,
  the two cloned offer lists and an empty ledger; \<^verbatim>\<open>_issuerGets\<close> and \<^verbatim>\<open>_issuerPays\<close>,
  which \<^verbatim>\<open>formatAutobridgedOffer\<close> reads, are assigned nowhere in the file, so they are
  undefined (\<open>None\<close>) on every constructed calculator.
\<close>

record engine =
  currencyGets :: currency
  currencyPays :: currency
  issuerGets :: "string option"
  issuerPays :: "string option"
  legOneOffers :: "offer list"
  legTwoOffers :: "offer list"
  ownerFundsLeftover :: "string \<rightharpoonup> amount"

definition AutobridgeCalculator ::
  "currency \<Rightarrow> currency \<Rightarrow> offer list \<Rightarrow> offer list \<Rightarrow> engine" where
  "AutobridgeCalculator currencyGets' currencyPays' legOneOffers' legTwoOffers' =
     \<lparr>currencyGets = currencyGets', currencyPays = currencyPays',
      issuerGets = None, issuerPays = None,
      legOneOffers = legOneOffers', legTwoOffers = legTwoOffers',
      ownerFundsLeftover = Map.empty\<rparr>"

definition assertValidLegOneOffer :: "offer \<Rightarrow> string \<Rightarrow> error + unit" where
  "assertValidLegOneOffer legOneOffer message =
     bind (assert (typeof_object (TakerPays legOneOffer)) message) (\<lambda>_.
       assert (validNumber (TakerGets legOneOffer)) message)"

subsection \<open>The ledger of leftover owner funds\<close>

text \<open>
  \<^verbatim>\<open>UInt160.is_valid\<close> is an external format check on account identifiers; it is the
  parameter \<open>is_valid\<close> of every operation that asserts it.
\<close>

definition clearOwnerFundsLeftover :: "engine \<Rightarrow> engine" where
  "clearOwnerFundsLeftover e = e\<lparr>ownerFundsLeftover := Map.empty\<rparr>"

definition resetOwnerFundsLeftover :: "(string \<Rightarrow> bool) \<Rightarrow> engine \<Rightarrow> string \<Rightarrow> error + engine" where
  "resetOwnerFundsLeftover is_valid e account =
     bind (assert (is_valid account) ''Account is invalid'') (\<lambda>_.
       Inr (e\<lparr>ownerFundsLeftover := (ownerFundsLeftover e)(account \<mapsto> normalizeAmount (Text 0))\<rparr>))"

definition getLeftoverOwnerFunds :: "(string \<Rightarrow> bool) \<Rightarrow> engine \<Rightarrow> string \<Rightarrow> error + amount" where
  "getLeftoverOwnerFunds is_valid e account =
     bind (assert (is_valid account) ''Account is invalid'') (\<lambda>_.
       Inr (case ownerFundsLeftover e account of
              None \<Rightarrow> normalizeAmount (Text 0)
            | Some amount \<Rightarrow> amount))"

definition addLeftoverOwnerFunds ::
  "(string \<Rightarrow> bool) \<Rightarrow> engine \<Rightarrow> string \<Rightarrow> amount \<Rightarrow> error + engine" where
  "addLeftoverOwnerFunds is_valid e account amount =
     bind (assert (is_valid account) ''Account is invalid'') (\<lambda>_.
     bind (getLeftoverOwnerFunds is_valid e account) (\<lambda>leftover.
       Inr (e\<lparr>ownerFundsLeftover := (ownerFundsLeftover e)(account \<mapsto> amount_add leftover amount)\<rparr>)))"

definition setLeftoverOwnerFunds ::
  "(string \<Rightarrow> bool) \<Rightarrow> engine \<Rightarrow> string \<Rightarrow> amount \<Rightarrow> error + engine" where
  "setLeftoverOwnerFunds is_valid e account amount =
     bind (assert (is_valid account) ''Account is invalid'') (\<lambda>_.
       Inr (e\<lparr>ownerFundsLeftover := (ownerFundsLeftover e)(account \<mapsto> amount)\<rparr>))"

subsection \<open>The formatter\<close>

definition formatAutobridgedOffer :: "engine \<Rightarrow> amount \<Rightarrow> amount \<Rightarrow> error + autobridged_offer" where
  "formatAutobridgedOffer e takerGets takerPays =
     bind (amount_divide takerPays takerGets) (\<lambda>quality'.
       Inr \<lparr>ab_TakerGets = \<lparr>value = to_text takerGets,
                            currency = to_hex (currencyGets e),
                            issuer = issuerGets e\<rparr>,
            ab_TakerPays = \<lparr>value = to_text takerPays,
                            currency = to_hex (currencyPays e),
                            issuer = issuerPays e\<rparr>,
            ab_quality = to_text quality',
            ab_taker_gets_funded = to_text takerGets,
            ab_taker_pays_funded = to_text takerPays,
            autobridged = True,
            BookDirectory = convertOfferQualityToHex quality'\<rparr>)"

subsection \<open>The funding clamp on leg-one offers\<close>

text \<open>
  \<^verbatim>\<open>setLegOneTakerGetsFunded\<close> writes both funded fields and then compares the new
  \<^verbatim>\<open>taker_gets_funded\<close> string with \<^verbatim>\<open>legOneOffer.TakerGets.value\<close>; only when they are
  strictly equal does it raise the flag. It has no branch that lowers it.
\<close>

definition setLegOneTakerGetsFunded :: "engine \<Rightarrow> offer \<Rightarrow> amount \<Rightarrow> error + offer" where
  "setLegOneTakerGetsFunded e legOneOffer takerGetsFunded =
     bind (assertValidLegOneOffer legOneOffer ''Leg one offer is invalid'') (\<lambda>_.
       let o1 = legOneOffer\<lparr>taker_gets_funded := to_text takerGetsFunded\<rparr>;
           o2 = o1\<lparr>taker_pays_funded :=
                  to_text (amount_multiply takerGetsFunded (getOfferQuality o1 (currencyGets e)))\<rparr>
       in Inr (if Some (taker_gets_funded o2) = value_property (TakerGets o2)
               then o2\<lparr>is_fully_funded := True\<rparr>
               else o2))"

definition setLegOneTakerGets :: "engine \<Rightarrow> offer \<Rightarrow> amount \<Rightarrow> error + offer" where
  "setLegOneTakerGets e legOneOffer takerGets =
     bind (assertValidLegOneOffer legOneOffer ''Leg one offer is invalid'') (\<lambda>_.
       let legOneQuality = getOfferQuality legOneOffer (currencyGets e)
       in Inr (legOneOffer\<lparr>TakerGets := Native (to_text takerGets),
                           TakerPays := AmountObject (amount_multiply takerGets legOneQuality)\<rparr>))"

definition unclampLegOneOwnerFunds :: "engine \<Rightarrow> offer \<Rightarrow> error + offer" where
  "unclampLegOneOwnerFunds e legOneOffer =
     bind (assertValidLegOneOffer legOneOffer ''Leg one offer is invalid'') (\<lambda>_.
       let o1 = legOneOffer\<lparr>initTakerGetsFunded := Some (getOfferTakerGetsFunded legOneOffer)\<rparr>
       in setLegOneTakerGetsFunded e o1 (getOfferTakerGets o1))"

text \<open>
  \<^verbatim>\<open>clampLegOneOwnerFunds\<close> reads the snapshot \<^verbatim>\<open>initTakerGetsFunded\<close> that unclamp left
  on the offer. Without a snapshot the comparison has no Amount to compare with; that case
  is the failure \<open>InvalidAmount\<close>.
\<close>

definition clampLegOneOwnerFunds ::
  "(string \<Rightarrow> bool) \<Rightarrow> engine \<Rightarrow> offer \<Rightarrow> error + engine \<times> offer" where
  "clampLegOneOwnerFunds is_valid e legOneOffer =
     bind (assertValidLegOneOffer legOneOffer ''Leg one offer is invalid'') (\<lambda>_.
       let takerGets = getOfferTakerGets legOneOffer in
       case initTakerGetsFunded legOneOffer of
         None \<Rightarrow> Inl InvalidAmount
       | Some init \<Rightarrow>
           if compareTo takerGets init > 0 then
             bind (setLegOneTakerGetsFunded e legOneOffer init) (\<lambda>o1. Inr (e, o1))
           else
             let updatedLeftover = amount_subtract init takerGets in
             bind (setLegOneTakerGetsFunded e legOneOffer takerGets) (\<lambda>o1.
             bind (addLeftoverOwnerFunds is_valid e (Account o1) updatedLeftover) (\<lambda>e1.
               Inr (e1, o1))))"

definition adjustLegOneFundedAmount ::
  "(string \<Rightarrow> bool) \<Rightarrow> engine \<Rightarrow> offer \<Rightarrow> error + engine \<times> offer" where
  "adjustLegOneFundedAmount is_valid e legOneOffer =
     bind (assertValidLegOneOffer legOneOffer ''Leg one offer is invalid'') (\<lambda>_.
     bind (assert (\<not> is_fully_funded legOneOffer) ''Leg one offer cannot be fully funded'') (\<lambda>_.
     bind (getLeftoverOwnerFunds is_valid e (Account legOneOffer)) (\<lambda>leftover.
       let fundedSum = amount_add (getOfferTakerGetsFunded legOneOffer) leftover in
       if compareTo fundedSum (getOfferTakerGets legOneOffer) \<ge> 0 then
         let legOneTakerGets = getOfferTakerGets legOneOffer;
             updatedLeftover = amount_subtract fundedSum legOneTakerGets in
         bind (setLegOneTakerGetsFunded e legOneOffer legOneTakerGets) (\<lambda>o1.
         bind (setLeftoverOwnerFunds is_valid e (Account o1) updatedLeftover) (\<lambda>e1.
           Inr (e1, o1)))
       else
         bind (setLegOneTakerGetsFunded e legOneOffer fundedSum) (\<lambda>o1.
         bind (resetOwnerFundsLeftover is_valid e (Account o1)) (\<lambda>e1.
           Inr (e1, o1))))))"

subsection \<open>The three ways of pairing the current offers\<close>

definition getAutobridgedOfferWithClampedLegOne ::
  "(string \<Rightarrow> bool) \<Rightarrow> engine \<Rightarrow> offer \<Rightarrow> offer \<Rightarrow> error + engine \<times> offer \<times> autobridged_offer" where
  "getAutobridgedOfferWithClampedLegOne is_valid e legOneOffer legTwoOffer =
     (let legOneTakerGetsFunded = getOfferTakerGetsFunded legOneOffer;
          legTwoTakerPaysFunded = getOfferTakerPaysFunded legTwoOffer;
          legOneQuality = getOfferQuality legOneOffer (currencyGets e);
          autobridgedTakerGets = getOfferTakerGetsFunded legTwoOffer;
          autobridgedTakerPays = amount_multiply legTwoTakerPaysFunded legOneQuality
      in
      bind (if Account legOneOffer = Account legTwoOffer then
              let legOneTakerGets = getOfferTakerGets legOneOffer;
                  updatedTakerGets = amount_subtract legOneTakerGets legTwoTakerPaysFunded in
              bind (setLegOneTakerGets e legOneOffer updatedTakerGets) (\<lambda>o1.
                clampLegOneOwnerFunds is_valid e o1)
            else
              let updatedTakerGetsFunded =
                    amount_subtract legOneTakerGetsFunded legTwoTakerPaysFunded in
              bind (setLegOneTakerGetsFunded e legOneOffer updatedTakerGetsFunded) (\<lambda>o1.
                Inr (e, o1)))
        (\<lambda>(e1, o1).
      bind (formatAutobridgedOffer e1 autobridgedTakerGets autobridgedTakerPays) (\<lambda>ab.
        Inr (e1, o1, ab))))"

definition getAutobridgedOfferWithClampedLegTwo ::
  "engine \<Rightarrow> offer \<Rightarrow> offer \<Rightarrow> error + offer \<times> autobridged_offer" where
  "getAutobridgedOfferWithClampedLegTwo e legOneOffer legTwoOffer =
     (let legOneTakerGetsFunded = getOfferTakerGetsFunded legOneOffer;
          legTwoTakerPaysFunded = getOfferTakerPaysFunded legTwoOffer;
          legTwoQuality = getOfferQuality legTwoOffer (currencyGets e)
      in
      bind (amount_divide legOneTakerGetsFunded legTwoQuality) (\<lambda>autobridgedTakerGets.
        let autobridgedTakerPays = getOfferTakerPaysFunded legOneOffer;
            o1 = legTwoOffer\<lparr>taker_gets_funded :=
                   to_text (amount_subtract (getOfferTakerGetsFunded legTwoOffer)
                                            autobridgedTakerGets)\<rparr>;
            o2 = o1\<lparr>taker_pays_funded :=
                   to_text (amount_subtract legTwoTakerPaysFunded legOneTakerGetsFunded)\<rparr>
        in
        bind (formatAutobridgedOffer e autobridgedTakerGets autobridgedTakerPays) (\<lambda>ab.
          Inr (o2, ab))))"

definition getAutobridgedOfferWithoutClamps ::
  "engine \<Rightarrow> offer \<Rightarrow> offer \<Rightarrow> error + autobridged_offer" where
  "getAutobridgedOfferWithoutClamps e legOneOffer legTwoOffer =
     (let autobridgedTakerGets = getOfferTakerGetsFunded legTwoOffer;
          autobridgedTakerPays = getOfferTakerPaysFunded legOneOffer
      in formatAutobridgedOffer e autobridgedTakerGets autobridgedTakerPays)"

subsection \<open>The merge loop of \<^verbatim>\<open>calculate\<close>\<close>

text \<open>
  The loop's variables: the calculator (with the offers it has mutated so far), the two
  pointers and the output array.
\<close>

record loop_state =
  this :: engine
  legOnePointer :: nat
  legTwoPointer :: nat
  offersAutobridged :: "autobridged_offer list"

text \<open>
  The loop condition \<^verbatim>\<open>this.legOneOffers[legOnePointer] && this.legTwoOffers[legTwoPointer]\<close>:
  an index past the end reads undefined, and every offer object is truthy.
\<close>

definition live :: "loop_state \<Rightarrow> bool" where
  "live s \<longleftrightarrow> legOnePointer s < length (legOneOffers (this s))
            \<and> legTwoPointer s < length (legTwoOffers (this s))"

text \<open>
  Lines 47 to 54 of the loop body: the leftover of the leg-one owner is read, and the
  leg-one offer is either unclamped (same owner), topped up (not fully funded and a
  nonzero leftover) or left as it is.
\<close>

definition prepareLegOne ::
  "(string \<Rightarrow> bool) \<Rightarrow> engine \<Rightarrow> offer \<Rightarrow> offer \<Rightarrow> error + engine \<times> offer" where
  "prepareLegOne is_valid e legOneOffer legTwoOffer =
     bind (getLeftoverOwnerFunds is_valid e (Account legOneOffer)) (\<lambda>leftoverFunds.
       if Account legOneOffer = Account legTwoOffer then
         bind (unclampLegOneOwnerFunds e legOneOffer) (\<lambda>o1. Inr (e, o1))
       else if \<not> is_fully_funded legOneOffer \<and> \<not> is_zero leftoverFunds then
         adjustLegOneFundedAmount is_valid e legOneOffer
       else Inr (e, legOneOffer))"

text \<open>
  Lines 56 to 95: the offers are objects inside the two arrays, so what the called
  functions change on them is written back at the pointers.
\<close>

definition pairOffers ::
  "(string \<Rightarrow> bool) \<Rightarrow> loop_state \<Rightarrow> engine \<Rightarrow> offer \<Rightarrow> offer \<Rightarrow> error + loop_state" where
  "pairOffers is_valid s e legOneOffer legTwoOffer =
     (let i = legOnePointer s; j = legTwoPointer s;
          legOneTakerGetsFunded = getOfferTakerGetsFunded legOneOffer;
          legTwoTakerPaysFunded = getOfferTakerPaysFunded legTwoOffer
      in
      if is_zero legOneTakerGetsFunded then
        Inr (s\<lparr>this := e\<lparr>legOneOffers := (legOneOffers e)[i := legOneOffer]\<rparr>,
               legOnePointer := i + 1\<rparr>)
      else if is_zero legTwoTakerPaysFunded then
        Inr (s\<lparr>this := e\<lparr>legOneOffers := (legOneOffers e)[i := legOneOffer]\<rparr>,
               legTwoPointer := j + 1\<rparr>)
      else if compareTo legOneTakerGetsFunded legTwoTakerPaysFunded > 0 then
        bind (getAutobridgedOfferWithClampedLegOne is_valid e legOneOffer legTwoOffer)
          (\<lambda>(e1, o1, autobridgedOffer).
            Inr (s\<lparr>this := e1\<lparr>legOneOffers := (legOneOffers e1)[i := o1]\<rparr>,
                   legTwoPointer := j + 1,
                   offersAutobridged := offersAutobridged s @ [autobridgedOffer]\<rparr>))
      else if compareTo legTwoTakerPaysFunded legOneTakerGetsFunded > 0 then
        bind (getAutobridgedOfferWithClampedLegTwo e legOneOffer legTwoOffer)
          (\<lambda>(o2, autobridgedOffer).
            Inr (s\<lparr>this := e\<lparr>legOneOffers := (legOneOffers e)[i := legOneOffer],
                              legTwoOffers := (legTwoOffers e)[j := o2]\<rparr>,
                   legOnePointer := i + 1,
                   offersAutobridged := offersAutobridged s @ [autobridgedOffer]\<rparr>))
      else
        bind (getAutobridgedOfferWithoutClamps e legOneOffer legTwoOffer)
          (\<lambda>autobridgedOffer.
            Inr (s\<lparr>this := e\<lparr>legOneOffers := (legOneOffers e)[i := legOneOffer]\<rparr>,
                   legOnePointer := i + 1,
                   legTwoPointer := j + 1,
                   offersAutobridged := offersAutobridged s @ [autobridgedOffer]\<rparr>)))"

text \<open>One pass through the loop body, entered only when the loop condition holds.\<close>

definition iteration :: "(string \<Rightarrow> bool) \<Rightarrow> loop_state \<Rightarrow> error + loop_state" where
  "iteration is_valid s =
     (let legOneOffer = legOneOffers (this s) ! legOnePointer s;
          legTwoOffer = legTwoOffers (this s) ! legTwoPointer s
      in bind (prepareLegOne is_valid (this s) legOneOffer legTwoOffer) (\<lambda>(e1, o1).
           pairOffers is_valid s e1 o1 legTwoOffer))"

subsection \<open>Basic facts about the operations\<close>

lemma bind_Inr [simp]: "bind (Inr v) f = f v"
  by (simp add: bind_def)

lemma bind_Inl [simp]: "bind (Inl err) f = Inl err"
  by (simp add: bind_def)

lemma bind_eq_Inr: "bind m f = Inr r \<longleftrightarrow> (\<exists>v. m = Inr v \<and> f v = Inr r)"
  by (cases m) simp_all

lemma assert_eq_Inr [simp]: "assert c message = Inr u \<longleftrightarrow> c"
  by (simp add: assert_def)

lemma assert_True [simp]: "c \<Longrightarrow> assert c message = Inr ()"
  by (simp add: assert_def)

lemma assertValidLegOneOffer_eq_Inr:
  "assertValidLegOneOffer off message = Inr u \<longleftrightarrow> (\<exists>t. TakerGets off = Native t) \<and> typeof_object (TakerPays off)"
  by (cases "TakerGets off") (auto simp: assertValidLegOneOffer_def bind_eq_Inr)

lemma setLegOneTakerGetsFunded_eq_Inr:
  "setLegOneTakerGetsFunded e off a = Inr off' \<longleftrightarrow>
     assertValidLegOneOffer off ''Leg one offer is invalid'' = Inr () \<and>
     off' = off\<lparr>taker_gets_funded := to_text a,
                taker_pays_funded := to_text (amount_multiply a (getOfferQuality off (currencyGets e)))\<rparr>"
  by (auto simp: setLegOneTakerGetsFunded_def bind_eq_Inr assertValidLegOneOffer_eq_Inr Let_def getOfferQuality_def)

lemma setLegOneTakerGets_eq_Inr:
  "setLegOneTakerGets e off a = Inr off' \<longleftrightarrow>
     assertValidLegOneOffer off ''Leg one offer is invalid'' = Inr () \<and>
     off' = off\<lparr>TakerGets := Native (to_text a),
                TakerPays := AmountObject (amount_multiply a (getOfferQuality off (currencyGets e)))\<rparr>"
  by (auto simp: setLegOneTakerGets_def bind_eq_Inr Let_def)

lemma getLeftoverOwnerFunds_eq_Inr:
  "getLeftoverOwnerFunds is_valid e account = Inr a \<longleftrightarrow>
     is_valid account \<and> a = (case ownerFundsLeftover e account of None \<Rightarrow> 0 | Some x \<Rightarrow> x)"
  by (auto simp: getLeftoverOwnerFunds_def bind_eq_Inr normalizeAmount_def split: option.splits)

lemma addLeftoverOwnerFunds_eq_Inr:
  "addLeftoverOwnerFunds is_valid e account a = Inr e' \<longleftrightarrow>
     is_valid account \<and>
     e' = e\<lparr>ownerFundsLeftover := (ownerFundsLeftover e)(account \<mapsto>
             (case ownerFundsLeftover e account of None \<Rightarrow> 0 | Some x \<Rightarrow> x) + a)\<rparr>"
  by (auto simp: addLeftoverOwnerFunds_def bind_eq_Inr getLeftoverOwnerFunds_eq_Inr amount_add_def)

lemma setLeftoverOwnerFunds_eq_Inr:
  "setLeftoverOwnerFunds is_valid e account a = Inr e' \<longleftrightarrow>
     is_valid account \<and> e' = e\<lparr>ownerFundsLeftover := (ownerFundsLeftover e)(account \<mapsto> a)\<rparr>"
  by (auto simp: setLeftoverOwnerFunds_def bind_eq_Inr)

lemma resetOwnerFundsLeftover_eq_Inr:
  "resetOwnerFundsLeftover is_valid e account = Inr e' \<longleftrightarrow>
     is_valid account \<and> e' = e\<lparr>ownerFundsLeftover := (ownerFundsLeftover e)(account \<mapsto> 0)\<rparr>"
  by (auto simp: resetOwnerFundsLeftover_def bind_eq_Inr normalizeAmount_def)

lemma unclampLegOneOwnerFunds_eq_Inr:
  "unclampLegOneOwnerFunds e off = Inr off' \<longleftrightarrow>
     assertValidLegOneOffer off ''Leg one offer is invalid'' = Inr () \<and>
     off' = off\<lparr>initTakerGetsFunded := Some (getOfferTakerGetsFunded off),
                taker_gets_funded := to_text (getOfferTakerGets off),
                taker_pays_funded := to_text (amount_multiply (getOfferTakerGets off)
                                               (getOfferQuality off (currencyGets e)))\<rparr>"
  by (auto simp: unclampLegOneOwnerFunds_def bind_eq_Inr Let_def setLegOneTakerGetsFunded_eq_Inr
        assertValidLegOneOffer_eq_Inr getOfferTakerGets_def getOfferQuality_def)

text \<open>The ledger operations change nothing of the calculator but the ledger.\<close>

definition ledger_only :: "engine \<Rightarrow> engine \<Rightarrow> bool" where
  "ledger_only e e' \<longleftrightarrow> e' = e\<lparr>ownerFundsLeftover := ownerFundsLeftover e'\<rparr>"

lemma ledger_only_refl [simp]: "ledger_only e e"
  by (simp add: ledger_only_def)

lemma ledger_only_update [simp]: "ledger_only e (e\<lparr>ownerFundsLeftover := m\<rparr>)"
  by (simp add: ledger_only_def)

lemma ledger_only_fields:
  assumes "ledger_only e e'"
  shows "legOneOffers e' = legOneOffers e" "legTwoOffers e' = legTwoOffers e"
    "currencyGets e' = currencyGets e" "currencyPays e' = currencyPays e"
    "issuerGets e' = issuerGets e" "issuerPays e' = issuerPays e"
  using assms unfolding ledger_only_def by (cases e, cases e', simp)+

lemma clampLegOneOwnerFunds_ledger_only:
  "clampLegOneOwnerFunds is_valid e off = Inr (e', off') \<Longrightarrow> ledger_only e e'"
  by (auto simp: clampLegOneOwnerFunds_def bind_eq_Inr Let_def addLeftoverOwnerFunds_eq_Inr
        split: option.splits if_splits)

lemma adjustLegOneFundedAmount_ledger_only:
  "adjustLegOneFundedAmount is_valid e off = Inr (e', off') \<Longrightarrow> ledger_only e e'"
  by (auto simp: adjustLegOneFundedAmount_def bind_eq_Inr Let_def setLeftoverOwnerFunds_eq_Inr
        resetOwnerFundsLeftover_eq_Inr split: if_splits)

lemma prepareLegOne_ledger_only:
  "prepareLegOne is_valid e off1 off2 = Inr (e', off') \<Longrightarrow> ledger_only e e'"
  by (auto simp: prepareLegOne_def bind_eq_Inr split: if_splits
        dest: adjustLegOneFundedAmount_ledger_only)

lemma getAutobridgedOfferWithClampedLegOne_ledger_only:
  "getAutobridgedOfferWithClampedLegOne is_valid e off1 off2 = Inr (e', off', ab) \<Longrightarrow> ledger_only e e'"
  by (auto simp: getAutobridgedOfferWithClampedLegOne_def bind_eq_Inr Let_def split: if_splits
        dest: clampLegOneOwnerFunds_ledger_only)

lemma pairOffers_advance:
  assumes "pairOffers is_valid s e off1 off2 = Inr s'"
  shows "length (legOneOffers (this s')) = length (legOneOffers e)
       \<and> length (legTwoOffers (this s')) = length (legTwoOffers e)
       \<and> legOnePointer s \<le> legOnePointer s' \<and> legTwoPointer s \<le> legTwoPointer s'
       \<and> legOnePointer s' \<le> legOnePointer s + 1 \<and> legTwoPointer s' \<le> legTwoPointer s + 1
       \<and> legOnePointer s + legTwoPointer s < legOnePointer s' + legTwoPointer s'"
  using assms
  by (auto simp: pairOffers_def bind_eq_Inr Let_def split: if_splits
        dest!: getAutobridgedOfferWithClampedLegOne_ledger_only dest: ledger_only_fields)

lemma iteration_advance:
  assumes "iteration is_valid s = Inr s'"
  shows "length (legOneOffers (this s')) = length (legOneOffers (this s))
       \<and> length (legTwoOffers (this s')) = length (legTwoOffers (this s))
       \<and> legOnePointer s \<le> legOnePointer s' \<and> legTwoPointer s \<le> legTwoPointer s'
       \<and> legOnePointer s' \<le> legOnePointer s + 1 \<and> legTwoPointer s' \<le> legTwoPointer s + 1
       \<and> legOnePointer s + legTwoPointer s < legOnePointer s' + legTwoPointer s'"
proof -
  from assms obtain e1 o1 where
    prep: "prepareLegOne is_valid (this s) (legOneOffers (this s) ! legOnePointer s)
             (legTwoOffers (this s) ! legTwoPointer s) = Inr (e1, o1)"
    and pair: "pairOffers is_valid s e1 o1 (legTwoOffers (this s) ! legTwoPointer s) = Inr s'"
    by (auto simp: iteration_def Let_def bind_eq_Inr)
  from prep have "ledger_only (this s) e1"
    by (rule prepareLegOne_ledger_only)
  then have "legOneOffers e1 = legOneOffers (this s)" "legTwoOffers e1 = legTwoOffers (this s)"
    by (rule ledger_only_fields)+
  with pairOffers_advance [OF pair] show ?thesis
    by simp
qed

text \<open>
  The \<^verbatim>\<open>while\<close> loop of \<^verbatim>\<open>calculate\<close>. A throw in the body ends the call. The loop
  terminates because every pass through the body moves a pointer forward and leaves the
  lengths of both arrays as they are.
\<close>

function calculate_loop :: "(string \<Rightarrow> bool) \<Rightarrow> loop_state \<Rightarrow> error + loop_state" where
  "calculate_loop is_valid s =
     (if live s then
        (case iteration is_valid s of
           Inl err \<Rightarrow> Inl err
         | Inr s' \<Rightarrow> calculate_loop is_valid s')
      else Inr s)"
  by pat_completeness auto
termination
proof (relation "measure (\<lambda>(is_valid, s).
          (length (legOneOffers (this s)) - legOnePointer s)
        + (length (legTwoOffers (this s)) - legTwoPointer s))")
  show "wf (measure (\<lambda>(is_valid, s).
          (length (legOneOffers (this s)) - legOnePointer s)
        + (length (legTwoOffers (this s)) - legTwoPointer s)))"
    by simp
next
  fix is_valid :: "string \<Rightarrow> bool" and s s' :: loop_state
  assume "live s" and "iteration is_valid s = Inr s'"
  with iteration_advance [of is_valid s s']
  show "((is_valid, s'), (is_valid, s)) \<in> measure (\<lambda>(is_valid, s).
          (length (legOneOffers (this s)) - legOnePointer s)
        + (length (legTwoOffers (this s)) - legTwoPointer s))"
    by (auto simp: live_def)
qed

declare calculate_loop.simps [simp del]

text \<open>
  \<^verbatim>\<open>calculate\<close> clears the ledger, runs the loop from both pointers at zero and returns
  the output array. \<open>start\<close> is the state in which the loop is entered.
\<close>

definition start :: "engine \<Rightarrow> loop_state" where
  "start e = \<lparr>this = clearOwnerFundsLeftover e, legOnePointer = 0, legTwoPointer = 0,
              offersAutobridged = []\<rparr>"

definition calculate :: "(string \<Rightarrow> bool) \<Rightarrow> engine \<Rightarrow> error + autobridged_offer list" where
  "calculate is_valid e =
     bind (calculate_loop is_valid (start e)) (\<lambda>s. Inr (offersAutobridged s))"

subsection \<open>The operations when their asserts pass\<close>

lemma setLegOneTakerGetsFunded_ok:
  assumes "assertValidLegOneOffer off ''Leg one offer is invalid'' = Inr ()"
  shows "setLegOneTakerGetsFunded e off a =
     Inr (off\<lparr>taker_gets_funded := to_text a,
               taker_pays_funded := to_text (amount_multiply a (getOfferQuality off (currencyGets e)))\<rparr>)"
  using assms by (simp add: setLegOneTakerGetsFunded_eq_Inr)

lemma setLegOneTakerGets_ok:
  assumes "assertValidLegOneOffer off ''Leg one offer is invalid'' = Inr ()"
  shows "setLegOneTakerGets e off a =
     Inr (off\<lparr>TakerGets := Native (to_text a),
               TakerPays := AmountObject (amount_multiply a (getOfferQuality off (currencyGets e)))\<rparr>)"
  using assms by (simp add: setLegOneTakerGets_eq_Inr)

text \<open>The leftover an account holds, zero when the ledger has no entry for it.\<close>

definition leftover_of :: "engine \<Rightarrow> string \<Rightarrow> amount" where
  "leftover_of e account = (case ownerFundsLeftover e account of None \<Rightarrow> 0 | Some x \<Rightarrow> x)"

lemma getLeftoverOwnerFunds_ok:
  "is_valid account \<Longrightarrow> getLeftoverOwnerFunds is_valid e account = Inr (leftover_of e account)"
  by (simp add: getLeftoverOwnerFunds_eq_Inr leftover_of_def)

lemma addLeftoverOwnerFunds_ok:
  "is_valid account \<Longrightarrow> addLeftoverOwnerFunds is_valid e account a =
     Inr (e\<lparr>ownerFundsLeftover := (ownerFundsLeftover e)(account \<mapsto> leftover_of e account + a)\<rparr>)"
  by (simp add: addLeftoverOwnerFunds_eq_Inr leftover_of_def)

lemma setLeftoverOwnerFunds_ok:
  "is_valid account \<Longrightarrow> setLeftoverOwnerFunds is_valid e account a =
     Inr (e\<lparr>ownerFundsLeftover := (ownerFundsLeftover e)(account \<mapsto> a)\<rparr>)"
  by (simp add: setLeftoverOwnerFunds_eq_Inr)

lemma resetOwnerFundsLeftover_ok:
  "is_valid account \<Longrightarrow> resetOwnerFundsLeftover is_valid e account =
     Inr (e\<lparr>ownerFundsLeftover := (ownerFundsLeftover e)(account \<mapsto> 0)\<rparr>)"
  by (simp add: resetOwnerFundsLeftover_eq_Inr)

lemma leftover_of_update [simp]:
  "leftover_of (e\<lparr>ownerFundsLeftover := (ownerFundsLeftover e)(a \<mapsto> x)\<rparr>) b
     = (if b = a then x else leftover_of e b)"
  by (simp add: leftover_of_def)

lemma compareTo_gt [simp]: "compareTo a b > 0 \<longleftrightarrow> a > b"
  by (simp add: compareTo_def)

lemma compareTo_ge [simp]: "compareTo a b \<ge> 0 \<longleftrightarrow> a \<ge> b"
  by (auto simp: compareTo_def)

lemma getOfferTakerGetsFunded_update [simp]:
  "getOfferTakerGetsFunded (off\<lparr>taker_gets_funded := to_text a, taker_pays_funded := t\<rparr>) = a"
  by (simp add: getOfferTakerGetsFunded_def to_text_def)

lemma adjustLegOneFundedAmount_shape:
  assumes "adjustLegOneFundedAmount is_valid e off = Inr (e', off')"
  shows "Account off' = Account off \<and> TakerGets off' = TakerGets off
       \<and> TakerPays off' = TakerPays off \<and> quality off' = quality off
       \<and> is_fully_funded off' = is_fully_funded off
       \<and> initTakerGetsFunded off' = initTakerGetsFunded off"
  using assms
  by (auto simp: adjustLegOneFundedAmount_def bind_eq_Inr Let_def
        setLegOneTakerGetsFunded_eq_Inr split: if_splits)

lemma prepareLegOne_shape:
  assumes "prepareLegOne is_valid e off off2 = Inr (e', off')"
  shows "Account off' = Account off \<and> TakerGets off' = TakerGets off
       \<and> TakerPays off' = TakerPays off \<and> quality off' = quality off
       \<and> is_fully_funded off' = is_fully_funded off"
  using assms
  by (auto simp: prepareLegOne_def bind_eq_Inr unclampLegOneOwnerFunds_eq_Inr
        split: if_splits dest: adjustLegOneFundedAmount_shape)

lemma prepareLegOne_valid:
  assumes "prepareLegOne is_valid e off off2 = Inr (e', off')"
    and "assertValidLegOneOffer off message = Inr ()"
  shows "assertValidLegOneOffer off' message' = Inr ()"
  using prepareLegOne_shape [OF assms(1)] assms(2)
  by (simp add: assertValidLegOneOffer_eq_Inr)

lemma prepareLegOne_account_valid:
  "prepareLegOne is_valid e off off2 = Inr (e', off') \<Longrightarrow> is_valid (Account off)"
  by (auto simp: prepareLegOne_def bind_eq_Inr getLeftoverOwnerFunds_eq_Inr)

lemma prepareLegOne_same_owner:
  assumes "prepareLegOne is_valid e off off2 = Inr (e', off')"
    and "Account off = Account off2"
  shows "e' = e \<and> initTakerGetsFunded off' = Some (getOfferTakerGetsFunded off)
       \<and> getOfferTakerGetsFunded off' = getOfferTakerGets off"
  using assms
  by (auto simp: prepareLegOne_def bind_eq_Inr unclampLegOneOwnerFunds_eq_Inr
      getOfferTakerGetsFunded_def to_text_def)

lemma getOfferQuality_shape:
  "quality off' = quality off \<Longrightarrow> getOfferQuality off' c' = getOfferQuality off c"
  by (simp add: getOfferQuality_def)

lemma to_text_from_text [simp]: "to_text (from_text t) = t"
  by (cases t) (simp add: to_text_def)

lemma from_text_to_text [simp]: "from_text (to_text a) = a"
  by (simp add: to_text_def)

lemma to_text_getOfferTakerGetsFunded [simp]:
  "to_text (getOfferTakerGetsFunded off) = taker_gets_funded off"
  by (simp add: getOfferTakerGetsFunded_def)

lemma to_text_getOfferTakerPaysFunded [simp]:
  "to_text (getOfferTakerPaysFunded off) = taker_pays_funded off"
  by (simp add: getOfferTakerPaysFunded_def)

lemma getOfferTakerGetsFunded_simps [simp]:
  "getOfferTakerGetsFunded (off\<lparr>taker_gets_funded := t\<rparr>) = from_text t"
  "getOfferTakerGetsFunded (off\<lparr>taker_pays_funded := t\<rparr>) = getOfferTakerGetsFunded off"
  by (simp_all add: getOfferTakerGetsFunded_def)

lemma getOfferTakerPaysFunded_simps [simp]:
  "getOfferTakerPaysFunded (off\<lparr>taker_pays_funded := t\<rparr>) = from_text t"
  "getOfferTakerPaysFunded (off\<lparr>taker_gets_funded := t\<rparr>) = getOfferTakerPaysFunded off"
  by (simp_all add: getOfferTakerPaysFunded_def)

lemma clampLegOneOwnerFunds_ok:
  assumes "assertValidLegOneOffer off ''Leg one offer is invalid'' = Inr ()"
    and "initTakerGetsFunded off = Some init"
    and "is_valid (Account off)"
  shows "\<exists>e' off'. clampLegOneOwnerFunds is_valid e off = Inr (e', off')
           \<and> TakerGets off' = TakerGets off \<and> TakerPays off' = TakerPays off"
  using assms
  by (simp add: clampLegOneOwnerFunds_def Let_def setLegOneTakerGetsFunded_ok
      addLeftoverOwnerFunds_ok)

lemma formatAutobridgedOffer_ok:
  assumes "\<not> is_zero takerGets"
  shows "formatAutobridgedOffer e takerGets takerPays =
     Inr \<lparr>ab_TakerGets = \<lparr>value = to_text takerGets, currency = to_hex (currencyGets e),
                          issuer = issuerGets e\<rparr>,
          ab_TakerPays = \<lparr>value = to_text takerPays, currency = to_hex (currencyPays e),
                          issuer = issuerPays e\<rparr>,
          ab_quality = to_text (takerPays / takerGets),
          ab_taker_gets_funded = to_text takerGets,
          ab_taker_pays_funded = to_text takerPays,
          autobridged = True,
          BookDirectory = convertOfferQualityToHex (takerPays / takerGets)\<rparr>"
  using assms by (simp add: formatAutobridgedOffer_def amount_divide_def is_zero_def)

subsection \<open>Concrete offers\<close>

text \<open>
  A leg-one offer sells the bridge currency (a native amount) for an issued amount; a
  leg-two offer sells an issued amount for the bridge currency. Both builders take the
  owner, the nominal \<^verbatim>\<open>TakerGets\<close> and \<^verbatim>\<open>TakerPays\<close>, the funded \<^verbatim>\<open>TakerGets\<close> and the
  \<^verbatim>\<open>is_fully_funded\<close> flag; the quality and the funded \<^verbatim>\<open>TakerPays\<close> follow from them.
\<close>

definition legOne :: "string \<Rightarrow> rat \<Rightarrow> rat \<Rightarrow> rat \<Rightarrow> bool \<Rightarrow> offer" where
  "legOne account gets pays funded flag =
     \<lparr>Account = account,
      TakerGets = Native (Text gets),
      TakerPays = Issued \<lparr>value = Text pays, currency = ''USD'', issuer = Some ''rIssuerOne''\<rparr>,
      quality = Text (pays / gets),
      taker_gets_funded = Text funded,
      taker_pays_funded = Text (funded * (pays / gets)),
      is_fully_funded = flag,
      initTakerGetsFunded = None\<rparr>"

definition legTwo :: "string \<Rightarrow> rat \<Rightarrow> rat \<Rightarrow> rat \<Rightarrow> bool \<Rightarrow> offer" where
  "legTwo account gets pays funded flag =
     \<lparr>Account = account,
      TakerGets = Issued \<lparr>value = Text gets, currency = ''EUR'', issuer = Some ''rIssuerTwo''\<rparr>,
      TakerPays = Native (Text pays),
      quality = Text (pays / gets),
      taker_gets_funded = Text funded,
      taker_pays_funded = Text (funded * (pays / gets)),
      is_fully_funded = flag,
      initTakerGetsFunded = None\<rparr>"

definition nonempty :: "string \<Rightarrow> bool" where
  "nonempty account \<longleftrightarrow> account \<noteq> []"

definition bridge :: "offer list \<Rightarrow> offer list \<Rightarrow> engine" where
  "bridge = AutobridgeCalculator (Currency ''EUR'') (Currency ''USD'')"

text \<open>The definitions a concrete run unfolds.\<close>

lemmas fixture_defs = legOne_def legTwo_def bridge_def nonempty_def start_def
  AutobridgeCalculator_def clearOwnerFundsLeftover_def

lemmas amount_defs = amount_add_def amount_subtract_def amount_multiply_def amount_divide_def
  is_zero_def to_text_def normalizeAmount_def

lemmas accessor_defs = getOfferTakerGets_def getOfferTakerGetsFunded_def
  getOfferTakerPaysFunded_def getOfferQuality_def

lemmas pass_defs = iteration_def prepareLegOne_def pairOffers_def
  getAutobridgedOfferWithClampedLegOne_def getAutobridgedOfferWithClampedLegTwo_def
  getAutobridgedOfferWithoutClamps_def formatAutobridgedOffer_def
  unclampLegOneOwnerFunds_def clampLegOneOwnerFunds_def adjustLegOneFundedAmount_def
  setLegOneTakerGetsFunded_def setLegOneTakerGets_def assertValidLegOneOffer_def
  getLeftoverOwnerFunds_def addLeftoverOwnerFunds_def setLeftoverOwnerFunds_def
  resetOwnerFundsLeftover_def convertOfferQualityToHex_def

section \<open>The funding clamp\<close>

text \<open>
  C5. Clamp-reconcile on a leg-one offer that carries the snapshot \<open>initFunded\<close> taken at
  unclamp: if the nominal \<^verbatim>\<open>TakerGets\<close> is at least \<open>initFunded\<close>, the funded amount is
  \<open>initFunded\<close> afterwards and the owner's leftover has the value it had; otherwise the
  funded amount is the nominal \<^verbatim>\<open>TakerGets\<close> and the owner's leftover has grown by exactly
  \<open>initFunded\<close> minus the nominal \<^verbatim>\<open>TakerGets\<close>. The call returns whenever the offer has
  the shape of a leg-one offer and its owner's account is valid.
\<close>

theorem clamp_reconcile_result:
  assumes valid: "assertValidLegOneOffer legOneOffer ''Leg one offer is invalid'' = Inr ()"
    and snapshot: "initTakerGetsFunded legOneOffer = Some initFunded"
    and left: "getLeftoverOwnerFunds is_valid e (Account legOneOffer) = Inr leftover"
    and nominal: "nominal = getOfferTakerGets legOneOffer"
  shows "\<exists>e' legOneOffer'.
           clampLegOneOwnerFunds is_valid e legOneOffer = Inr (e', legOneOffer')
         \<and> (if nominal \<ge> initFunded
            then getOfferTakerGetsFunded legOneOffer' = initFunded
               \<and> getLeftoverOwnerFunds is_valid e' (Account legOneOffer) = Inr leftover
            else getOfferTakerGetsFunded legOneOffer' = nominal
               \<and> getLeftoverOwnerFunds is_valid e' (Account legOneOffer)
                   = Inr (amount_add leftover (amount_subtract initFunded nominal)))"
proof -
  from left have ok: "is_valid (Account legOneOffer)"
    by (simp add: getLeftoverOwnerFunds_eq_Inr)
  show ?thesis
    using valid snapshot left ok nominal
    by (auto simp: clampLegOneOwnerFunds_def Let_def setLegOneTakerGetsFunded_ok
        addLeftoverOwnerFunds_ok getLeftoverOwnerFunds_ok amount_add_def amount_subtract_def)
qed

theorem clamp_reconcile_result_witness:
  "assertValidLegOneOffer ((legOne ''A'' 60 30 60 False)\<lparr>initTakerGetsFunded := Some 80\<rparr>)
      ''Leg one offer is invalid'' = Inr ()
   \<and> getLeftoverOwnerFunds nonempty (bridge [] []) ''A'' = Inr 0
   \<and> (\<exists>e' legOneOffer'.
         clampLegOneOwnerFunds nonempty (bridge [] [])
           ((legOne ''A'' 60 30 60 False)\<lparr>initTakerGetsFunded := Some 80\<rparr>) = Inr (e', legOneOffer')
       \<and> getOfferTakerGetsFunded legOneOffer' = 60
       \<and> getLeftoverOwnerFunds nonempty e' ''A'' = Inr 20)"
proof -
  let ?off = "(legOne ''A'' 60 30 60 False)\<lparr>initTakerGetsFunded := Some 80\<rparr>"
  let ?e = "bridge [] []"
  have h1: "assertValidLegOneOffer ?off ''Leg one offer is invalid'' = Inr ()"
    by (simp add: legOne_def assertValidLegOneOffer_def)
  have h2: "initTakerGetsFunded ?off = Some 80"
    by simp
  have h3: "getLeftoverOwnerFunds nonempty ?e (Account ?off) = Inr 0"
    by (simp add: legOne_def getLeftoverOwnerFunds_def nonempty_def bridge_def
        AutobridgeCalculator_def normalizeAmount_def)
  from clamp_reconcile_result [OF h1 h2 h3 refl] h1 h3 show ?thesis
    by (simp add: legOne_def getOfferTakerGets_def amount_add_def amount_subtract_def)
qed

text \<open>
  C6. Top-up on a leg-one offer that is not fully funded, with \<open>fundedSum\<close> the funded
  amount plus the owner's leftover: if \<open>fundedSum\<close> is at least the nominal
  \<^verbatim>\<open>TakerGets\<close>, the funded amount becomes the nominal \<^verbatim>\<open>TakerGets\<close> and the owner's
  leftover becomes \<open>fundedSum\<close> minus the nominal \<^verbatim>\<open>TakerGets\<close>; otherwise the funded
  amount becomes \<open>fundedSum\<close> and the leftover becomes zero. The statement holds for every
  leftover, so also for the positive ones the loop calls top-up with.
\<close>

theorem top_up_result:
  assumes valid: "assertValidLegOneOffer legOneOffer ''Leg one offer is invalid'' = Inr ()"
    and unfunded: "\<not> is_fully_funded legOneOffer"
    and left: "getLeftoverOwnerFunds is_valid e (Account legOneOffer) = Inr leftover"
    and sum: "fundedSum = amount_add (getOfferTakerGetsFunded legOneOffer) leftover"
    and nominal: "nominal = getOfferTakerGets legOneOffer"
  shows "\<exists>e' legOneOffer'.
           adjustLegOneFundedAmount is_valid e legOneOffer = Inr (e', legOneOffer')
         \<and> (if fundedSum \<ge> nominal
            then getOfferTakerGetsFunded legOneOffer' = nominal
               \<and> getLeftoverOwnerFunds is_valid e' (Account legOneOffer)
                   = Inr (amount_subtract fundedSum nominal)
            else getOfferTakerGetsFunded legOneOffer' = fundedSum
               \<and> getLeftoverOwnerFunds is_valid e' (Account legOneOffer) = Inr 0)"
proof -
  from left have ok: "is_valid (Account legOneOffer)"
    by (simp add: getLeftoverOwnerFunds_eq_Inr)
  show ?thesis
    using valid unfunded left ok sum nominal
    by (simp add: adjustLegOneFundedAmount_def Let_def setLegOneTakerGetsFunded_ok
        setLeftoverOwnerFunds_ok resetOwnerFundsLeftover_ok getLeftoverOwnerFunds_ok)
qed

theorem top_up_result_witness:
  "assertValidLegOneOffer (legOne ''A'' 100 50 30 False) ''Leg one offer is invalid'' = Inr ()
   \<and> \<not> is_fully_funded (legOne ''A'' 100 50 30 False)
   \<and> getLeftoverOwnerFunds nonempty ((bridge [] [])\<lparr>ownerFundsLeftover := [''A'' \<mapsto> 90]\<rparr>) ''A'' = Inr 90
   \<and> (\<exists>e' legOneOffer'.
         adjustLegOneFundedAmount nonempty ((bridge [] [])\<lparr>ownerFundsLeftover := [''A'' \<mapsto> 90]\<rparr>)
           (legOne ''A'' 100 50 30 False) = Inr (e', legOneOffer')
       \<and> getOfferTakerGetsFunded legOneOffer' = 100
       \<and> getLeftoverOwnerFunds nonempty e' ''A'' = Inr 20)"
proof -
  let ?off = "legOne ''A'' 100 50 30 False"
  let ?e = "(bridge [] [])\<lparr>ownerFundsLeftover := [''A'' \<mapsto> 90]\<rparr>"
  have h1: "assertValidLegOneOffer ?off ''Leg one offer is invalid'' = Inr ()"
    by (simp add: legOne_def assertValidLegOneOffer_def)
  have h2: "\<not> is_fully_funded ?off"
    by (simp add: legOne_def)
  have h3: "getLeftoverOwnerFunds nonempty ?e (Account ?off) = Inr 90"
    by (simp add: legOne_def getLeftoverOwnerFunds_def nonempty_def)
  from top_up_result [OF h1 h2 h3 refl refl] h1 h2 h3 show ?thesis
    by (simp add: legOne_def getOfferTakerGetsFunded_def getOfferTakerGets_def
        amount_add_def amount_subtract_def)
qed

section \<open>One pass through the loop body\<close>

text \<open>
  In the theorems of this section \<open>legOneOffer\<close> and \<open>legTwoOffer\<close> are the offers at the
  two pointers, \<open>l1\<close> is the leg-one offer after lines 47 to 54 (unclamp or top-up), \<open>g1\<close>
  is its funded \<^verbatim>\<open>TakerGets\<close> and \<open>p2\<close> is the funded \<^verbatim>\<open>TakerPays\<close> of leg two: the two
  amounts the loop compares. The hypotheses beyond those of the claims are the conditions
  under which the source does not throw: the asserts on the leg-one offer and its owner's
  account pass, and the amount the composite quality is divided by is not zero.
\<close>

text \<open>
  C1. Both offers live, \<open>g1\<close> and \<open>p2\<close> nonzero, \<open>g1 > p2\<close>, different owners: the pass
  emits one composite offer whose \<^verbatim>\<open>TakerGets\<close> value is leg two's funded \<^verbatim>\<open>TakerGets\<close>
  and whose \<^verbatim>\<open>TakerPays\<close> value is \<open>p2\<close> times the quality of leg one; the funded
  \<^verbatim>\<open>TakerGets\<close> of the leg-one offer becomes \<open>g1 - p2\<close>; the leg-one pointer stays and
  the leg-two pointer moves forward by one.
\<close>

theorem clamped_leg_one_different_owners:
  assumes live: "live s"
    and one: "legOneOffer = legOneOffers (this s) ! legOnePointer s"
    and two: "legTwoOffer = legTwoOffers (this s) ! legTwoPointer s"
    and valid: "assertValidLegOneOffer legOneOffer ''Leg one offer is invalid'' = Inr ()"
    and prep: "prepareLegOne is_valid (this s) legOneOffer legTwoOffer = Inr (e1, l1)"
    and g1: "g1 = getOfferTakerGetsFunded l1"
    and p2: "p2 = getOfferTakerPaysFunded legTwoOffer"
    and nz1: "\<not> is_zero g1" and nz2: "\<not> is_zero p2"
    and gt: "g1 > p2"
    and owners: "Account legOneOffer \<noteq> Account legTwoOffer"
    and out: "\<not> is_zero (getOfferTakerGetsFunded legTwoOffer)"
  shows "\<exists>s' ab. iteration is_valid s = Inr s'
      \<and> offersAutobridged s' = offersAutobridged s @ [ab]
      \<and> value (ab_TakerGets ab) = taker_gets_funded legTwoOffer
      \<and> value (ab_TakerPays ab)
          = to_text (amount_multiply p2 (getOfferQuality legOneOffer (currencyGets (this s))))
      \<and> getOfferTakerGetsFunded (legOneOffers (this s') ! legOnePointer s)
          = amount_subtract g1 p2
      \<and> legOnePointer s' = legOnePointer s
      \<and> legTwoPointer s' = legTwoPointer s + 1"
proof -
  note shape = prepareLegOne_shape [OF prep]
  have valid1: "assertValidLegOneOffer l1 ''Leg one offer is invalid'' = Inr ()"
    using prep valid by (rule prepareLegOne_valid)
  have q: "getOfferQuality l1 (currencyGets e1) = getOfferQuality legOneOffer (currencyGets (this s))"
    using shape by (simp add: getOfferQuality_def)
  have len: "legOnePointer s < length (legOneOffers e1)"
    using live ledger_only_fields(1) [OF prepareLegOne_ledger_only [OF prep]]
    by (simp add: live_def)
  have clamp: "getAutobridgedOfferWithClampedLegOne is_valid e1 l1 legTwoOffer =
      bind (formatAutobridgedOffer e1 (getOfferTakerGetsFunded legTwoOffer)
              (amount_multiply p2 (getOfferQuality legOneOffer (currencyGets (this s)))))
        (\<lambda>ab. Inr (e1, l1\<lparr>taker_gets_funded := to_text (amount_subtract g1 p2),
               taker_pays_funded := to_text (amount_multiply (amount_subtract g1 p2)
                  (getOfferQuality legOneOffer (currencyGets (this s))))\<rparr>, ab))"
    using owners shape g1 p2 q
    by (simp add: getAutobridgedOfferWithClampedLegOne_def Let_def
        setLegOneTakerGetsFunded_ok [OF valid1])
  show ?thesis
    using prep nz1 nz2 gt len
    by (simp add: iteration_def Let_def one [symmetric] two [symmetric] pairOffers_def
        g1 [symmetric] p2 [symmetric] clamp formatAutobridgedOffer_ok [OF out])
qed

theorem clamped_leg_one_different_owners_witness:
  "live (start (bridge [legOne ''A'' 100 50 100 True] [legTwo ''B'' 20 40 20 True]))
   \<and> prepareLegOne nonempty (bridge [legOne ''A'' 100 50 100 True] [legTwo ''B'' 20 40 20 True])
        (legOne ''A'' 100 50 100 True) (legTwo ''B'' 20 40 20 True)
       = Inr (bridge [legOne ''A'' 100 50 100 True] [legTwo ''B'' 20 40 20 True],
              legOne ''A'' 100 50 100 True)
   \<and> getOfferTakerGetsFunded (legOne ''A'' 100 50 100 True) = 100
   \<and> getOfferTakerPaysFunded (legTwo ''B'' 20 40 20 True) = 40
   \<and> (\<exists>s' ab.
         iteration nonempty
           (start (bridge [legOne ''A'' 100 50 100 True] [legTwo ''B'' 20 40 20 True])) = Inr s'
       \<and> offersAutobridged s' = [ab]
       \<and> value (ab_TakerGets ab) = Text 20
       \<and> value (ab_TakerPays ab) = Text 20
       \<and> getOfferTakerGetsFunded (legOneOffers (this s') ! 0) = 60
       \<and> legOnePointer s' = 0
       \<and> legTwoPointer s' = 1)"
proof -
  let ?l1 = "legOne ''A'' 100 50 100 True"
  let ?l2 = "legTwo ''B'' 20 40 20 True"
  let ?e = "bridge [?l1] [?l2]"
  let ?s = "start ?e"
  have eng: "this ?s = ?e"
    by (simp add: fixture_defs)
  have live: "live ?s"
    by (simp add: live_def fixture_defs)
  have one: "?l1 = legOneOffers (this ?s) ! legOnePointer ?s"
    by (simp add: fixture_defs)
  have two: "?l2 = legTwoOffers (this ?s) ! legTwoPointer ?s"
    by (simp add: fixture_defs)
  have valid: "assertValidLegOneOffer ?l1 ''Leg one offer is invalid'' = Inr ()"
    by (simp add: legOne_def assertValidLegOneOffer_def)
  have prep: "prepareLegOne nonempty (this ?s) ?l1 ?l2 = Inr (?e, ?l1)"
    by (simp add: fixture_defs prepareLegOne_def getLeftoverOwnerFunds_def)
  have g1: "getOfferTakerGetsFunded ?l1 = 100"
    by (simp add: legOne_def getOfferTakerGetsFunded_def)
  have p2: "getOfferTakerPaysFunded ?l2 = 40"
    by (simp add: legTwo_def getOfferTakerPaysFunded_def)
  have out: "getOfferTakerGetsFunded ?l2 = 20"
    by (simp add: legTwo_def getOfferTakerGetsFunded_def)
  have owners: "Account ?l1 \<noteq> Account ?l2"
    by (simp add: legOne_def legTwo_def)
  have q: "getOfferQuality ?l1 c = 1 / 2" for c
    by (simp add: legOne_def getOfferQuality_def normalizeAmount_def)
  have "\<exists>s' ab. iteration nonempty ?s = Inr s'
      \<and> offersAutobridged s' = offersAutobridged ?s @ [ab]
      \<and> value (ab_TakerGets ab) = taker_gets_funded ?l2
      \<and> value (ab_TakerPays ab)
          = to_text (amount_multiply 40 (getOfferQuality ?l1 (currencyGets (this ?s))))
      \<and> getOfferTakerGetsFunded (legOneOffers (this s') ! legOnePointer ?s)
          = amount_subtract 100 40
      \<and> legOnePointer s' = legOnePointer ?s
      \<and> legTwoPointer s' = legTwoPointer ?s + 1"
    by (rule clamped_leg_one_different_owners [OF live one two valid prep g1 [symmetric] p2 [symmetric]])
       (simp_all add: is_zero_def out owners)
  moreover have "offersAutobridged ?s = []" "legOnePointer ?s = 0" "legTwoPointer ?s = 0"
    "taker_gets_funded ?l2 = Text 20"
    by (simp_all add: start_def legTwo_def)
  ultimately show ?thesis
    using live prep g1 p2 eng
    by (simp add: q amount_defs)
qed

text \<open>
  C2. Both offers live, \<open>g1\<close> and \<open>p2\<close> nonzero, \<open>p2 > g1\<close>: the pass emits one composite
  offer whose \<^verbatim>\<open>TakerGets\<close> value is \<open>g1\<close> divided by the quality of leg two and whose
  \<^verbatim>\<open>TakerPays\<close> value is leg one's funded \<^verbatim>\<open>TakerPays\<close>; the funded \<^verbatim>\<open>TakerGets\<close> of
  the leg-two offer is reduced by the emitted \<^verbatim>\<open>TakerGets\<close> and its funded
  \<^verbatim>\<open>TakerPays\<close> by \<open>g1\<close>; the leg-two pointer stays and the leg-one pointer moves
  forward by one.
\<close>

theorem clamped_leg_two:
  assumes live: "live s"
    and one: "legOneOffer = legOneOffers (this s) ! legOnePointer s"
    and two: "legTwoOffer = legTwoOffers (this s) ! legTwoPointer s"
    and prep: "prepareLegOne is_valid (this s) legOneOffer legTwoOffer = Inr (e1, l1)"
    and g1: "g1 = getOfferTakerGetsFunded l1"
    and p2: "p2 = getOfferTakerPaysFunded legTwoOffer"
    and nz1: "\<not> is_zero g1" and nz2: "\<not> is_zero p2"
    and gt: "p2 > g1"
    and q2: "q2 = getOfferQuality legTwoOffer (currencyGets (this s))"
    and rate: "\<not> is_zero q2"
  shows "\<exists>s' ab takerGets. iteration is_valid s = Inr s'
      \<and> amount_divide g1 q2 = Inr takerGets
      \<and> offersAutobridged s' = offersAutobridged s @ [ab]
      \<and> value (ab_TakerGets ab) = to_text takerGets
      \<and> value (ab_TakerPays ab) = taker_pays_funded l1
      \<and> getOfferTakerGetsFunded (legTwoOffers (this s') ! legTwoPointer s)
          = amount_subtract (getOfferTakerGetsFunded legTwoOffer) takerGets
      \<and> getOfferTakerPaysFunded (legTwoOffers (this s') ! legTwoPointer s)
          = amount_subtract p2 g1
      \<and> legOnePointer s' = legOnePointer s + 1
      \<and> legTwoPointer s' = legTwoPointer s"
proof -
  have fields: "legTwoOffers e1 = legTwoOffers (this s)" "currencyGets e1 = currencyGets (this s)"
    using ledger_only_fields [OF prepareLegOne_ledger_only [OF prep]] by simp_all
  have len: "legTwoPointer s < length (legTwoOffers e1)"
    using live fields by (simp add: live_def)
  have quot: "\<not> is_zero (g1 / q2)"
    using nz1 rate by (simp add: is_zero_def)
  have clamp: "getAutobridgedOfferWithClampedLegTwo e1 l1 legTwoOffer =
      bind (formatAutobridgedOffer e1 (g1 / q2) (getOfferTakerPaysFunded l1))
        (\<lambda>ab. Inr (legTwoOffer\<lparr>taker_gets_funded :=
                 to_text (amount_subtract (getOfferTakerGetsFunded legTwoOffer) (g1 / q2)),
               taker_pays_funded := to_text (amount_subtract p2 g1)\<rparr>, ab))"
    using rate g1 p2 q2 fields
    by (simp add: getAutobridgedOfferWithClampedLegTwo_def Let_def amount_divide_def
        is_zero_def getOfferQuality_def)
  have div: "amount_divide g1 q2 = Inr (g1 / q2)"
    using rate by (simp add: amount_divide_def is_zero_def)
  show ?thesis
    using prep nz1 nz2 gt len
    by (simp add: iteration_def Let_def one [symmetric] two [symmetric] pairOffers_def
        g1 [symmetric] p2 [symmetric] clamp div formatAutobridgedOffer_ok [OF quot])
qed

theorem clamped_leg_two_witness:
  "live (start (bridge [legOne ''A'' 100 50 40 False] [legTwo ''B'' 40 100 40 True]))
   \<and> prepareLegOne nonempty (bridge [legOne ''A'' 100 50 40 False] [legTwo ''B'' 40 100 40 True])
        (legOne ''A'' 100 50 40 False) (legTwo ''B'' 40 100 40 True)
       = Inr (bridge [legOne ''A'' 100 50 40 False] [legTwo ''B'' 40 100 40 True],
              legOne ''A'' 100 50 40 False)
   \<and> getOfferTakerGetsFunded (legOne ''A'' 100 50 40 False) = 40
   \<and> getOfferTakerPaysFunded (legTwo ''B'' 40 100 40 True) = 100
   \<and> (\<exists>s' ab.
         iteration nonempty
           (start (bridge [legOne ''A'' 100 50 40 False] [legTwo ''B'' 40 100 40 True])) = Inr s'
       \<and> offersAutobridged s' = [ab]
       \<and> value (ab_TakerGets ab) = Text 16
       \<and> value (ab_TakerPays ab) = Text 20
       \<and> getOfferTakerGetsFunded (legTwoOffers (this s') ! 0) = 24
       \<and> getOfferTakerPaysFunded (legTwoOffers (this s') ! 0) = 60
       \<and> legOnePointer s' = 1
       \<and> legTwoPointer s' = 0)"
proof -
  let ?l1 = "legOne ''A'' 100 50 40 False"
  let ?l2 = "legTwo ''B'' 40 100 40 True"
  let ?e = "bridge [?l1] [?l2]"
  let ?s = "start ?e"
  have eng: "this ?s = ?e"
    by (simp add: fixture_defs)
  have live: "live ?s"
    by (simp add: live_def fixture_defs)
  have one: "?l1 = legOneOffers (this ?s) ! legOnePointer ?s"
    by (simp add: fixture_defs)
  have two: "?l2 = legTwoOffers (this ?s) ! legTwoPointer ?s"
    by (simp add: fixture_defs)
  have prep: "prepareLegOne nonempty (this ?s) ?l1 ?l2 = Inr (?e, ?l1)"
    by (simp add: fixture_defs prepareLegOne_def getLeftoverOwnerFunds_def amount_defs)
  have g1: "getOfferTakerGetsFunded ?l1 = 40"
    by (simp add: legOne_def getOfferTakerGetsFunded_def)
  have p2: "getOfferTakerPaysFunded ?l2 = 100"
    by (simp add: legTwo_def getOfferTakerPaysFunded_def)
  have out: "getOfferTakerGetsFunded ?l2 = 40"
    by (simp add: legTwo_def getOfferTakerGetsFunded_def)
  have q2: "5 / 2 = getOfferQuality ?l2 (currencyGets (this ?s))"
    by (simp add: legTwo_def getOfferQuality_def normalizeAmount_def)
  have "\<exists>s' ab takerGets. iteration nonempty ?s = Inr s'
      \<and> amount_divide 40 (5 / 2) = Inr takerGets
      \<and> offersAutobridged s' = offersAutobridged ?s @ [ab]
      \<and> value (ab_TakerGets ab) = to_text takerGets
      \<and> value (ab_TakerPays ab) = taker_pays_funded ?l1
      \<and> getOfferTakerGetsFunded (legTwoOffers (this s') ! legTwoPointer ?s)
          = amount_subtract (getOfferTakerGetsFunded ?l2) takerGets
      \<and> getOfferTakerPaysFunded (legTwoOffers (this s') ! legTwoPointer ?s)
          = amount_subtract 100 40
      \<and> legOnePointer s' = legOnePointer ?s + 1
      \<and> legTwoPointer s' = legTwoPointer ?s"
    by (rule clamped_leg_two [OF live one two prep g1 [symmetric] p2 [symmetric] _ _ _ q2])
       (simp_all add: is_zero_def)
  moreover have "offersAutobridged ?s = []" "legOnePointer ?s = 0" "legTwoPointer ?s = 0"
    "taker_pays_funded ?l1 = Text 20"
    by (simp_all add: start_def legOne_def)
  ultimately show ?thesis
    using live prep g1 p2 eng out
    by (auto simp: amount_defs)
qed



text \<open>
  The pass for equal amounts, and the run on the spec's equal-case scenario: leg one of
  account A sells 100 bridge for 50 and is fully funded, leg two of account B sells 40 for
  100 bridge and is fully funded.
\<close>

lemma equal_amounts_pass:
  assumes live: "live s"
    and one: "legOneOffer = legOneOffers (this s) ! legOnePointer s"
    and two: "legTwoOffer = legTwoOffers (this s) ! legTwoPointer s"
    and prep: "prepareLegOne is_valid (this s) legOneOffer legTwoOffer = Inr (e1, l1)"
    and g1: "g1 = getOfferTakerGetsFunded l1"
    and p2: "p2 = getOfferTakerPaysFunded legTwoOffer"
    and eq: "g1 = p2"
    and nz: "\<not> is_zero g1"
    and out: "\<not> is_zero (getOfferTakerGetsFunded legTwoOffer)"
  shows "\<exists>s' ab. iteration is_valid s = Inr s'
      \<and> offersAutobridged s' = offersAutobridged s @ [ab]
      \<and> value (ab_TakerGets ab) = taker_gets_funded legTwoOffer
      \<and> value (ab_TakerPays ab) = taker_pays_funded l1
      \<and> legOnePointer s' = legOnePointer s + 1
      \<and> legTwoPointer s' = legTwoPointer s + 1"
proof -
  have nz2: "\<not> is_zero p2"
    using nz eq by simp
  show ?thesis
    using prep nz nz2 eq
    by (simp add: iteration_def Let_def one [symmetric] two [symmetric] pairOffers_def
        g1 [symmetric] p2 [symmetric] getAutobridgedOfferWithoutClamps_def
        formatAutobridgedOffer_ok [OF out])
qed

lemma equal_scenario_loop:
  "calculate_loop nonempty (start (bridge [legOne ''A'' 100 50 100 True] [legTwo ''B'' 40 100 40 True]))
   = Inr \<lparr>this = bridge [legOne ''A'' 100 50 100 True] [legTwo ''B'' 40 100 40 True],
          legOnePointer = 1, legTwoPointer = 1,
          offersAutobridged =
            [\<lparr>ab_TakerGets = \<lparr>value = Text 40, currency = ''EUR'', issuer = None\<rparr>,
              ab_TakerPays = \<lparr>value = Text 50, currency = ''USD'', issuer = None\<rparr>,
              ab_quality = Text (5 / 4),
              ab_taker_gets_funded = Text 40,
              ab_taker_pays_funded = Text 50,
              autobridged = True,
              BookDirectory = QualityHex (5 / 4)\<rparr>]\<rparr>"
  by (simp add: calculate_loop.simps live_def fixture_defs pass_defs amount_defs accessor_defs
      compareTo_def)

text \<open>
  C9, amended. Both offers live, \<open>g1 = p2\<close> exactly and nonzero: the pass emits one
  composite offer whose \<^verbatim>\<open>TakerGets\<close> value is leg two's funded \<^verbatim>\<open>TakerGets\<close> and whose
  \<^verbatim>\<open>TakerPays\<close> value is leg one's funded \<^verbatim>\<open>TakerPays\<close>, and both pointers move forward
  by one. On the equal-case scenario \<^verbatim>\<open>calculate\<close> returns exactly one offer, with
  \<^verbatim>\<open>TakerGets\<close> 40, \<^verbatim>\<open>TakerPays\<close> 50 and quality 5/4, and the loop ends with both
  pointers at the ends of their lists.
\<close>

theorem equal_amounts:
  "(live s
    \<and> legOneOffer = legOneOffers (this s) ! legOnePointer s
    \<and> legTwoOffer = legTwoOffers (this s) ! legTwoPointer s
    \<and> prepareLegOne is_valid (this s) legOneOffer legTwoOffer = Inr (e1, l1)
    \<and> getOfferTakerGetsFunded l1 = getOfferTakerPaysFunded legTwoOffer
    \<and> \<not> is_zero (getOfferTakerGetsFunded l1)
    \<and> \<not> is_zero (getOfferTakerGetsFunded legTwoOffer)
    \<longrightarrow> (\<exists>s' ab. iteration is_valid s = Inr s'
          \<and> offersAutobridged s' = offersAutobridged s @ [ab]
          \<and> value (ab_TakerGets ab) = taker_gets_funded legTwoOffer
          \<and> value (ab_TakerPays ab) = taker_pays_funded l1
          \<and> legOnePointer s' = legOnePointer s + 1
          \<and> legTwoPointer s' = legTwoPointer s + 1))
   \<and> (\<exists>ab. calculate nonempty
               (bridge [legOne ''A'' 100 50 100 True] [legTwo ''B'' 40 100 40 True]) = Inr [ab]
          \<and> value (ab_TakerGets ab) = Text 40
          \<and> value (ab_TakerPays ab) = Text 50
          \<and> ab_quality ab = Text (5 / 4))
   \<and> (\<exists>s'. calculate_loop nonempty
               (start (bridge [legOne ''A'' 100 50 100 True] [legTwo ''B'' 40 100 40 True])) = Inr s'
          \<and> legOnePointer s' = length (legOneOffers (this s'))
          \<and> legTwoPointer s' = length (legTwoOffers (this s')))"
proof (intro conjI impI)
  assume "live s
    \<and> legOneOffer = legOneOffers (this s) ! legOnePointer s
    \<and> legTwoOffer = legTwoOffers (this s) ! legTwoPointer s
    \<and> prepareLegOne is_valid (this s) legOneOffer legTwoOffer = Inr (e1, l1)
    \<and> getOfferTakerGetsFunded l1 = getOfferTakerPaysFunded legTwoOffer
    \<and> \<not> is_zero (getOfferTakerGetsFunded l1)
    \<and> \<not> is_zero (getOfferTakerGetsFunded legTwoOffer)"
  then show "\<exists>s' ab. iteration is_valid s = Inr s'
          \<and> offersAutobridged s' = offersAutobridged s @ [ab]
          \<and> value (ab_TakerGets ab) = taker_gets_funded legTwoOffer
          \<and> value (ab_TakerPays ab) = taker_pays_funded l1
          \<and> legOnePointer s' = legOnePointer s + 1
          \<and> legTwoPointer s' = legTwoPointer s + 1"
    using equal_amounts_pass [of s legOneOffer legTwoOffer is_valid e1 l1
        "getOfferTakerGetsFunded l1" "getOfferTakerPaysFunded legTwoOffer"]
    by blast
next
  show "\<exists>ab. calculate nonempty
               (bridge [legOne ''A'' 100 50 100 True] [legTwo ''B'' 40 100 40 True]) = Inr [ab]
          \<and> value (ab_TakerGets ab) = Text 40
          \<and> value (ab_TakerPays ab) = Text 50
          \<and> ab_quality ab = Text (5 / 4)"
    by (simp add: calculate_def equal_scenario_loop)
next
  show "\<exists>s'. calculate_loop nonempty
               (start (bridge [legOne ''A'' 100 50 100 True] [legTwo ''B'' 40 100 40 True])) = Inr s'
          \<and> legOnePointer s' = length (legOneOffers (this s'))
          \<and> legTwoPointer s' = length (legTwoOffers (this s'))"
    unfolding equal_scenario_loop by (simp add: bridge_def AutobridgeCalculator_def)
qed

theorem equal_amounts_witness:
  "live (start (bridge [legOne ''A'' 100 50 100 True] [legTwo ''B'' 40 100 40 True]))
   \<and> prepareLegOne nonempty (bridge [legOne ''A'' 100 50 100 True] [legTwo ''B'' 40 100 40 True])
        (legOne ''A'' 100 50 100 True) (legTwo ''B'' 40 100 40 True)
       = Inr (bridge [legOne ''A'' 100 50 100 True] [legTwo ''B'' 40 100 40 True],
              legOne ''A'' 100 50 100 True)
   \<and> getOfferTakerGetsFunded (legOne ''A'' 100 50 100 True) = 100
   \<and> getOfferTakerPaysFunded (legTwo ''B'' 40 100 40 True) = 100
   \<and> (\<exists>s' ab.
         iteration nonempty
           (start (bridge [legOne ''A'' 100 50 100 True] [legTwo ''B'' 40 100 40 True])) = Inr s'
       \<and> offersAutobridged s' = [ab]
       \<and> value (ab_TakerGets ab) = Text 40
       \<and> value (ab_TakerPays ab) = Text 50
       \<and> legOnePointer s' = 1
       \<and> legTwoPointer s' = 1)"
proof -
  let ?l1 = "legOne ''A'' 100 50 100 True"
  let ?l2 = "legTwo ''B'' 40 100 40 True"
  let ?e = "bridge [?l1] [?l2]"
  let ?s = "start ?e"
  have eng: "this ?s = ?e"
    by (simp add: fixture_defs)
  have live: "live ?s"
    by (simp add: live_def fixture_defs)
  have one: "?l1 = legOneOffers (this ?s) ! legOnePointer ?s"
    by (simp add: fixture_defs)
  have two: "?l2 = legTwoOffers (this ?s) ! legTwoPointer ?s"
    by (simp add: fixture_defs)
  have prep: "prepareLegOne nonempty (this ?s) ?l1 ?l2 = Inr (?e, ?l1)"
    by (simp add: fixture_defs prepareLegOne_def getLeftoverOwnerFunds_def)
  have g1: "getOfferTakerGetsFunded ?l1 = 100"
    by (simp add: legOne_def getOfferTakerGetsFunded_def)
  have p2: "getOfferTakerPaysFunded ?l2 = 100"
    by (simp add: legTwo_def getOfferTakerPaysFunded_def)
  have out: "getOfferTakerGetsFunded ?l2 = 40"
    by (simp add: legTwo_def getOfferTakerGetsFunded_def)
  have hyps: "live ?s
    \<and> ?l1 = legOneOffers (this ?s) ! legOnePointer ?s
    \<and> ?l2 = legTwoOffers (this ?s) ! legTwoPointer ?s
    \<and> prepareLegOne nonempty (this ?s) ?l1 ?l2 = Inr (?e, ?l1)
    \<and> getOfferTakerGetsFunded ?l1 = getOfferTakerPaysFunded ?l2
    \<and> \<not> is_zero (getOfferTakerGetsFunded ?l1)
    \<and> \<not> is_zero (getOfferTakerGetsFunded ?l2)"
    using live one two prep by (simp add: g1 p2 out is_zero_def)
  have "\<exists>s' ab. iteration nonempty ?s = Inr s'
          \<and> offersAutobridged s' = offersAutobridged ?s @ [ab]
          \<and> value (ab_TakerGets ab) = taker_gets_funded ?l2
          \<and> value (ab_TakerPays ab) = taker_pays_funded ?l1
          \<and> legOnePointer s' = legOnePointer ?s + 1
          \<and> legTwoPointer s' = legTwoPointer ?s + 1"
    using equal_amounts [of ?s ?l1 ?l2 nonempty ?e ?l1, THEN conjunct1] hyps by blast
  moreover have "offersAutobridged ?s = []" "legOnePointer ?s = 0" "legTwoPointer ?s = 0"
    "taker_gets_funded ?l2 = Text 40" "taker_pays_funded ?l1 = Text 50"
    by (simp_all add: start_def legTwo_def legOne_def)
  ultimately show ?thesis
    using live prep g1 p2 eng by simp
qed

text \<open>
  C9 as stated fails when the equal amounts are both zero: the guard on a zero \<open>g1\<close> comes
  first, so the pass emits nothing and moves only the leg-one pointer.
\<close>

theorem equal_amounts_zero_counterexample:
  "live (start (bridge [legOne ''A'' 100 50 0 False] [legTwo ''B'' 40 100 0 False]))
   \<and> getOfferTakerGetsFunded (legOne ''A'' 100 50 0 False)
       = getOfferTakerPaysFunded (legTwo ''B'' 40 100 0 False)
   \<and> iteration nonempty (start (bridge [legOne ''A'' 100 50 0 False] [legTwo ''B'' 40 100 0 False]))
       = Inr ((start (bridge [legOne ''A'' 100 50 0 False] [legTwo ''B'' 40 100 0 False]))
                \<lparr>legOnePointer := 1\<rparr>)
   \<and> calculate nonempty (bridge [legOne ''A'' 100 50 0 False] [legTwo ''B'' 40 100 0 False])
       = Inr []"
  by (simp add: calculate_def calculate_loop.simps live_def fixture_defs pass_defs amount_defs
      accessor_defs compareTo_def)

section \<open>The funded amounts and the flag of a leg-one offer\<close>

text \<open>
  C3, amended. On an offer with the shape of a leg-one offer, \<^verbatim>\<open>setLegOneTakerGetsFunded\<close>
  returns, the funded \<^verbatim>\<open>TakerGets\<close> is the amount given, the funded \<^verbatim>\<open>TakerPays\<close> is that
  amount times the offer's quality, and the flag \<^verbatim>\<open>is_fully_funded\<close> is never lowered: an
  offer flagged before the call is flagged after it.
\<close>

theorem set_funded_result:
  assumes valid: "assertValidLegOneOffer legOneOffer ''Leg one offer is invalid'' = Inr ()"
  shows "\<exists>legOneOffer'.
           setLegOneTakerGetsFunded e legOneOffer takerGetsFunded = Inr legOneOffer'
         \<and> getOfferTakerGetsFunded legOneOffer' = takerGetsFunded
         \<and> getOfferTakerPaysFunded legOneOffer'
             = amount_multiply takerGetsFunded (getOfferQuality legOneOffer' (currencyGets e))
         \<and> (is_fully_funded legOneOffer \<longrightarrow> is_fully_funded legOneOffer')"
proof -
  let ?rate = "getOfferQuality legOneOffer (currencyGets e)"
  let ?off = "legOneOffer\<lparr>taker_gets_funded := to_text takerGetsFunded,
                taker_pays_funded := to_text (amount_multiply takerGetsFunded ?rate)\<rparr>"
  have returns: "setLegOneTakerGetsFunded e legOneOffer takerGetsFunded = Inr ?off"
    using valid by (rule setLegOneTakerGetsFunded_ok)
  have gets: "getOfferTakerGetsFunded ?off = takerGetsFunded"
    by simp
  have "getOfferQuality ?off (currencyGets e) = ?rate"
    by (simp add: getOfferQuality_def)
  then have pays: "getOfferTakerPaysFunded ?off
      = amount_multiply takerGetsFunded (getOfferQuality ?off (currencyGets e))"
    by simp
  have flag: "is_fully_funded ?off = is_fully_funded legOneOffer"
    by simp
  from returns gets pays flag show ?thesis
    by simp
qed

theorem set_funded_result_witness:
  "assertValidLegOneOffer (legOne ''A'' 100 50 100 True) ''Leg one offer is invalid'' = Inr ()
   \<and> (\<exists>legOneOffer'.
         setLegOneTakerGetsFunded (bridge [] []) (legOne ''A'' 100 50 100 True) 60 = Inr legOneOffer'
       \<and> getOfferTakerGetsFunded legOneOffer' = 60
       \<and> getOfferTakerPaysFunded legOneOffer' = 30
       \<and> is_fully_funded legOneOffer')"
proof -
  let ?l1 = "legOne ''A'' 100 50 100 True"
  have valid: "assertValidLegOneOffer ?l1 ''Leg one offer is invalid'' = Inr ()"
    by (simp add: legOne_def assertValidLegOneOffer_def)
  have flag: "is_fully_funded ?l1"
    by (simp add: legOne_def)
  have q: "quality off = quality ?l1 \<Longrightarrow> getOfferQuality off c = 1 / 2" for off c
    by (simp add: legOne_def getOfferQuality_def normalizeAmount_def)
  from set_funded_result [OF valid, of "bridge [] []" 60]
  obtain off where off: "setLegOneTakerGetsFunded (bridge [] []) ?l1 60 = Inr off"
    "getOfferTakerGetsFunded off = 60"
    "getOfferTakerPaysFunded off = amount_multiply 60 (getOfferQuality off (currencyGets (bridge [] [])))"
    "is_fully_funded off"
    using flag by blast
  from off(1) have "quality off = quality ?l1"
    by (auto simp: setLegOneTakerGetsFunded_eq_Inr)
  with off q valid show ?thesis
    by (simp add: amount_multiply_def)
qed

text \<open>
  C3 as stated fails: a fully funded, flagged offer of 100 whose funded amount is set to 60,
  as partial consumption does, still reads \<^verbatim>\<open>is_fully_funded\<close> although 60 is strictly
  below the nominal 100.
\<close>

theorem set_funded_flag_counterexample:
  "setLegOneTakerGetsFunded (bridge [] []) (legOne ''A'' 100 50 100 True) 60
     = Inr (legOne ''A'' 100 50 60 True)
   \<and> is_fully_funded (legOne ''A'' 100 50 60 True)
   \<and> getOfferTakerGetsFunded (legOne ''A'' 100 50 60 True)
       < getOfferTakerGets (legOne ''A'' 100 50 60 True)"
  by (simp add: fixture_defs pass_defs amount_defs accessor_defs)

section \<open>The issuers of the emitted offers\<close>

lemma formatAutobridgedOffer_issuers:
  "formatAutobridgedOffer e takerGets takerPays = Inr ab \<Longrightarrow>
     issuer (ab_TakerGets ab) = issuerGets e \<and> issuer (ab_TakerPays ab) = issuerPays e"
  by (auto simp: formatAutobridgedOffer_def bind_eq_Inr)

text \<open>A composite offer carries the issuers the calculator holds.\<close>

definition issuers_of :: "engine \<Rightarrow> autobridged_offer \<Rightarrow> bool" where
  "issuers_of e ab \<longleftrightarrow>
     issuer (ab_TakerGets ab) = issuerGets e \<and> issuer (ab_TakerPays ab) = issuerPays e"

lemma issuers_of_ledger_only:
  "ledger_only e e' \<Longrightarrow> issuers_of e' ab = issuers_of e ab"
  by (simp add: issuers_of_def ledger_only_fields)

lemma ledger_onlyE:
  assumes "ledger_only e e'"
  obtains m where "e' = e\<lparr>ownerFundsLeftover := m\<rparr>"
  using assms unfolding ledger_only_def by blast

lemma getAutobridgedOfferWithClampedLegOne_issuers:
  assumes "getAutobridgedOfferWithClampedLegOne is_valid e off1 off2 = Inr (e', off', ab)"
  shows "issuers_of e ab"
proof -
  from assms obtain takerGets takerPays where
    "formatAutobridgedOffer e' takerGets takerPays = Inr ab"
    by (auto simp: getAutobridgedOfferWithClampedLegOne_def bind_eq_Inr Let_def)
  then have "issuers_of e' ab"
    by (simp add: issuers_of_def formatAutobridgedOffer_issuers)
  then show ?thesis
    using getAutobridgedOfferWithClampedLegOne_ledger_only [OF assms]
    by (simp add: issuers_of_ledger_only)
qed

lemma getAutobridgedOfferWithClampedLegOne_both:
  assumes "getAutobridgedOfferWithClampedLegOne is_valid e off1 off2 = Inr (e', off', ab)"
  shows "ledger_only e e' \<and> issuers_of e ab"
  using getAutobridgedOfferWithClampedLegOne_ledger_only [OF assms]
    getAutobridgedOfferWithClampedLegOne_issuers [OF assms] by simp

lemma getAutobridgedOfferWithClampedLegTwo_issuers:
  "getAutobridgedOfferWithClampedLegTwo e off1 off2 = Inr (off', ab) \<Longrightarrow> issuers_of e ab"
  by (auto simp: getAutobridgedOfferWithClampedLegTwo_def bind_eq_Inr Let_def issuers_of_def
        dest!: formatAutobridgedOffer_issuers)

lemma getAutobridgedOfferWithoutClamps_issuers:
  "getAutobridgedOfferWithoutClamps e off1 off2 = Inr ab \<Longrightarrow> issuers_of e ab"
  by (auto simp: getAutobridgedOfferWithoutClamps_def Let_def issuers_of_def
        dest!: formatAutobridgedOffer_issuers)

lemma pairOffers_issuers:
  assumes "pairOffers is_valid s e off1 off2 = Inr s'"
    and "\<forall>ab \<in> set (offersAutobridged s). issuers_of e ab"
  shows "(\<forall>ab \<in> set (offersAutobridged s'). issuers_of e ab)
       \<and> issuerGets (this s') = issuerGets e \<and> issuerPays (this s') = issuerPays e"
  using assms
  by (auto simp: pairOffers_def bind_eq_Inr Let_def split: if_splits
        dest: getAutobridgedOfferWithClampedLegTwo_issuers
          getAutobridgedOfferWithoutClamps_issuers
        dest!: getAutobridgedOfferWithClampedLegOne_both
        elim!: ledger_onlyE)

lemma iteration_issuers:
  assumes "iteration is_valid s = Inr s'"
    and "\<forall>ab \<in> set (offersAutobridged s). issuers_of (this s) ab"
  shows "(\<forall>ab \<in> set (offersAutobridged s'). issuers_of (this s') ab)"
proof -
  from assms(1) obtain e1 o1 where
    prep: "prepareLegOne is_valid (this s) (legOneOffers (this s) ! legOnePointer s)
             (legTwoOffers (this s) ! legTwoPointer s) = Inr (e1, o1)"
    and pair: "pairOffers is_valid s e1 o1 (legTwoOffers (this s) ! legTwoPointer s) = Inr s'"
    by (auto simp: iteration_def Let_def bind_eq_Inr)
  have lo: "ledger_only (this s) e1"
    using prep by (rule prepareLegOne_ledger_only)
  then have "\<forall>ab \<in> set (offersAutobridged s). issuers_of e1 ab"
    using assms(2) by (simp add: issuers_of_ledger_only)
  from pairOffers_issuers [OF pair this] show ?thesis
    by (simp add: issuers_of_def)
qed

lemma calculate_loop_issuers:
  "calculate_loop is_valid s = Inr s' \<Longrightarrow>
   \<forall>ab \<in> set (offersAutobridged s). issuers_of (this s) ab \<Longrightarrow>
   \<forall>ab \<in> set (offersAutobridged s'). issuers_of (this s') ab"
proof (induction is_valid s rule: calculate_loop.induct)
  case (1 is_valid s)
  show ?case
  proof (cases "live s")
    case False
    with "1.prems" show ?thesis
      by (simp add: calculate_loop.simps)
  next
    case True
    with "1.prems"(1) obtain s1 where it: "iteration is_valid s = Inr s1"
      and rest: "calculate_loop is_valid s1 = Inr s'"
      by (auto simp: calculate_loop.simps [of is_valid s] split: sum.splits)
    from iteration_issuers [OF it "1.prems"(2)] "1.IH" [OF True it rest]
    show ?thesis by blast
  qed
qed

lemma calculate_loop_issuer_fields:
  "calculate_loop is_valid s = Inr s' \<Longrightarrow>
   issuerGets (this s') = issuerGets (this s) \<and> issuerPays (this s') = issuerPays (this s)"
proof (induction is_valid s rule: calculate_loop.induct)
  case (1 is_valid s)
  show ?case
  proof (cases "live s")
    case False
    with "1.prems" show ?thesis
      by (simp add: calculate_loop.simps)
  next
    case True
    with "1.prems"(1) obtain s1 where it: "iteration is_valid s = Inr s1"
      and rest: "calculate_loop is_valid s1 = Inr s'"
      by (auto simp: calculate_loop.simps [of is_valid s] split: sum.splits)
    from it obtain e1 o1 where
      prep: "prepareLegOne is_valid (this s) (legOneOffers (this s) ! legOnePointer s)
               (legTwoOffers (this s) ! legTwoPointer s) = Inr (e1, o1)"
      and pair: "pairOffers is_valid s e1 o1 (legTwoOffers (this s) ! legTwoPointer s) = Inr s1"
      by (auto simp: iteration_def Let_def bind_eq_Inr)
    have "issuerGets e1 = issuerGets (this s)" "issuerPays e1 = issuerPays (this s)"
      using ledger_only_fields [OF prepareLegOne_ledger_only [OF prep]] by simp_all
    moreover have "issuerGets (this s1) = issuerGets e1 \<and> issuerPays (this s1) = issuerPays e1"
      using pair
      by (auto simp: pairOffers_def bind_eq_Inr Let_def split: if_splits
          dest!: getAutobridgedOfferWithClampedLegOne_ledger_only elim!: ledger_onlyE)
    ultimately show ?thesis
      using "1.IH" [OF True it rest] by simp
  qed
qed

text \<open>
  C4. The constructor takes the two currencies and the two offer lists and nothing else;
  \<^verbatim>\<open>formatAutobridgedOffer\<close> reads \<^verbatim>\<open>this._issuerGets\<close> and \<^verbatim>\<open>this._issuerPays\<close>, which the
  constructor never assigns. Every offer \<^verbatim>\<open>calculate\<close> emits on a constructed calculator
  therefore carries an undefined issuer on both sides, whatever issuers the caller meant to
  configure.
\<close>

theorem emitted_issuers_undefined:
  assumes run: "calculate is_valid (AutobridgeCalculator currencyGets' currencyPays'
                   legOneOffers' legTwoOffers') = Inr offers"
    and emitted: "ab \<in> set offers"
  shows "issuer (ab_TakerGets ab) = None \<and> issuer (ab_TakerPays ab) = None"
proof -
  let ?e = "AutobridgeCalculator currencyGets' currencyPays' legOneOffers' legTwoOffers'"
  from run obtain s' where loop: "calculate_loop is_valid (start ?e) = Inr s'"
    and offers: "offers = offersAutobridged s'"
    by (auto simp: calculate_def bind_eq_Inr)
  have "\<forall>ab \<in> set (offersAutobridged (start ?e)). issuers_of (this (start ?e)) ab"
    by (simp add: start_def)
  from calculate_loop_issuers [OF loop this] emitted offers
  have "issuers_of (this s') ab"
    by simp
  moreover have "issuerGets (this s') = None" "issuerPays (this s') = None"
    using calculate_loop_issuer_fields [OF loop]
    by (simp_all add: start_def clearOwnerFundsLeftover_def AutobridgeCalculator_def)
  ultimately show ?thesis
    by (simp add: issuers_of_def)
qed

theorem emitted_issuers_undefined_witness:
  "\<exists>offers ab.
     calculate nonempty (AutobridgeCalculator (Currency ''EUR'') (Currency ''USD'')
        [legOne ''A'' 100 50 100 True] [legTwo ''B'' 40 100 40 True]) = Inr offers
   \<and> ab \<in> set offers
   \<and> issuer (ab_TakerGets ab) = None \<and> issuer (ab_TakerPays ab) = None"
proof -
  let ?e = "AutobridgeCalculator (Currency ''EUR'') (Currency ''USD'')
        [legOne ''A'' 100 50 100 True] [legTwo ''B'' 40 100 40 True]"
  obtain ab where run: "calculate nonempty ?e = Inr [ab]"
    using equal_scenario_loop by (simp add: calculate_def bridge_def)
  have "ab \<in> set [ab]"
    by simp
  from emitted_issuers_undefined [OF run this] run show ?thesis
    by auto
qed

section \<open>The run as a whole\<close>

text \<open>
  The state of the loop after \<open>k\<close> passes through its body, or the state in which it ended
  if it ended earlier: the points of a run between which the ledger is looked at.
\<close>

fun after_passes :: "nat \<Rightarrow> (string \<Rightarrow> bool) \<Rightarrow> loop_state \<Rightarrow> error + loop_state" where
  "after_passes 0 is_valid s = Inr s"
| "after_passes (Suc k) is_valid s =
     (if live s then bind (iteration is_valid s) (after_passes k is_valid) else Inr s)"

text \<open>
  The loop run with a budget of \<open>k\<close> passes: \<open>None\<close> when the budget is used up while the
  loop condition still holds.
\<close>

fun loop_within :: "nat \<Rightarrow> (string \<Rightarrow> bool) \<Rightarrow> loop_state \<Rightarrow> (error + loop_state) option" where
  "loop_within 0 is_valid s = (if live s then None else Some (Inr s))"
| "loop_within (Suc k) is_valid s =
     (if live s then
        (case iteration is_valid s of
           Inl err \<Rightarrow> Some (Inl err)
         | Inr s' \<Rightarrow> loop_within k is_valid s')
      else Some (Inr s))"

subsection \<open>The ledger never goes negative\<close>

text \<open>No account holds a negative leftover.\<close>

definition ledger_nonneg :: "engine \<Rightarrow> bool" where
  "ledger_nonneg e \<longleftrightarrow> (\<forall>account. 0 \<le> leftover_of e account)"

lemma ledger_nonneg_update:
  "ledger_nonneg e \<Longrightarrow> 0 \<le> x \<Longrightarrow>
   ledger_nonneg (e\<lparr>ownerFundsLeftover := (ownerFundsLeftover e)(account \<mapsto> x)\<rparr>)"
  by (simp add: ledger_nonneg_def)

lemma ledger_nonneg_offers [simp]:
  "ledger_nonneg (e\<lparr>legOneOffers := xs\<rparr>) = ledger_nonneg e"
  "ledger_nonneg (e\<lparr>legTwoOffers := ys\<rparr>) = ledger_nonneg e"
  by (simp_all add: ledger_nonneg_def leftover_of_def)

lemma ledger_nonneg_clear: "ledger_nonneg (clearOwnerFundsLeftover e)"
  by (simp add: ledger_nonneg_def leftover_of_def clearOwnerFundsLeftover_def)

lemma clampLegOneOwnerFunds_nonneg:
  assumes "clampLegOneOwnerFunds is_valid e off = Inr (e', off')" and "ledger_nonneg e"
  shows "ledger_nonneg e'"
proof -
  have "0 \<le> leftover_of e (Account off)"
    using assms(2) by (simp add: ledger_nonneg_def)
  then show ?thesis
    using assms
    by (auto simp: clampLegOneOwnerFunds_def bind_eq_Inr Let_def addLeftoverOwnerFunds_eq_Inr
        setLegOneTakerGetsFunded_eq_Inr amount_subtract_def leftover_of_def
        split: option.splits if_splits intro!: ledger_nonneg_update)
qed

lemma adjustLegOneFundedAmount_nonneg:
  assumes "adjustLegOneFundedAmount is_valid e off = Inr (e', off')" and "ledger_nonneg e"
  shows "ledger_nonneg e'"
  using assms
  by (auto simp: adjustLegOneFundedAmount_def bind_eq_Inr Let_def setLeftoverOwnerFunds_eq_Inr
      resetOwnerFundsLeftover_eq_Inr setLegOneTakerGetsFunded_eq_Inr amount_subtract_def
      split: if_splits intro!: ledger_nonneg_update)

lemma prepareLegOne_nonneg:
  assumes "prepareLegOne is_valid e off off2 = Inr (e', off')" and "ledger_nonneg e"
  shows "ledger_nonneg e'"
  using assms
  by (auto simp: prepareLegOne_def bind_eq_Inr split: if_splits
      dest: adjustLegOneFundedAmount_nonneg)

lemma getAutobridgedOfferWithClampedLegOne_nonneg:
  assumes "getAutobridgedOfferWithClampedLegOne is_valid e off1 off2 = Inr (e', off', ab)"
    and "ledger_nonneg e"
  shows "ledger_nonneg e'"
  using assms
  by (auto simp: getAutobridgedOfferWithClampedLegOne_def bind_eq_Inr Let_def split: if_splits
      dest: clampLegOneOwnerFunds_nonneg)

lemma pairOffers_nonneg:
  assumes "pairOffers is_valid s e off1 off2 = Inr s'" and "ledger_nonneg e"
  shows "ledger_nonneg (this s')"
  using assms
  by (auto simp: pairOffers_def bind_eq_Inr Let_def split: if_splits
      dest: getAutobridgedOfferWithClampedLegOne_nonneg)

lemma iteration_nonneg:
  assumes "iteration is_valid s = Inr s'" and "ledger_nonneg (this s)"
  shows "ledger_nonneg (this s')"
  using assms
  by (auto simp: iteration_def Let_def bind_eq_Inr
      dest!: prepareLegOne_nonneg dest: pairOffers_nonneg)

lemma after_passes_nonneg:
  "after_passes k is_valid s = Inr s' \<Longrightarrow> ledger_nonneg (this s) \<Longrightarrow> ledger_nonneg (this s')"
proof (induction k arbitrary: s)
  case 0
  then show ?case by simp
next
  case (Suc k)
  show ?case
  proof (cases "live s")
    case False
    with Suc.prems show ?thesis by simp
  next
    case True
    with Suc.prems(1) obtain s1 where it: "iteration is_valid s = Inr s1"
      and rest: "after_passes k is_valid s1 = Inr s'"
      by (auto simp: bind_eq_Inr)
    from iteration_nonneg [OF it Suc.prems(2)] have "ledger_nonneg (this s1)" .
    with Suc.IH [OF rest] show ?thesis .
  qed
qed

lemma clampLegOneOwnerFunds_grows:
  assumes "clampLegOneOwnerFunds is_valid e off = Inr (e', off')"
  shows "leftover_of e account \<le> leftover_of e' account"
  using assms
  by (auto simp: clampLegOneOwnerFunds_def bind_eq_Inr Let_def addLeftoverOwnerFunds_eq_Inr
      setLegOneTakerGetsFunded_eq_Inr amount_subtract_def leftover_of_def
      split: option.splits if_splits)

lemma adjustLegOneFundedAmount_account:
  assumes "adjustLegOneFundedAmount is_valid e off = Inr (e', off')"
  shows "0 \<le> leftover_of e' (Account off)
       \<and> (account \<noteq> Account off \<longrightarrow> leftover_of e' account = leftover_of e account)"
  using assms
  by (auto simp: adjustLegOneFundedAmount_def bind_eq_Inr Let_def setLeftoverOwnerFunds_eq_Inr
      resetOwnerFundsLeftover_eq_Inr setLegOneTakerGetsFunded_eq_Inr amount_subtract_def
      split: if_splits)

text \<open>
  The data model's bound on a leg-one offer: its funded \<^verbatim>\<open>TakerGets\<close> does not exceed the
  nominal one. Nothing in the source checks it.
\<close>

definition within_nominal :: "offer \<Rightarrow> bool" where
  "within_nominal off \<longleftrightarrow> getOfferTakerGetsFunded off \<le> getOfferTakerGets off"

text \<open>
  Offer lists in which every leg-one offer is within its nominal amount and every leg-two
  offer has a non-negative funded \<^verbatim>\<open>TakerPays\<close>.
\<close>

definition offers_consistent :: "engine \<Rightarrow> bool" where
  "offers_consistent e \<longleftrightarrow>
     (\<forall>off \<in> set (legOneOffers e). within_nominal off)
   \<and> (\<forall>off \<in> set (legTwoOffers e). 0 \<le> getOfferTakerPaysFunded off)"

text \<open>The leftover an account holds after \<open>k\<close> passes of a run.\<close>

definition leftover_after :: "nat \<Rightarrow> (string \<Rightarrow> bool) \<Rightarrow> engine \<Rightarrow> string \<Rightarrow> error + amount" where
  "leftover_after k is_valid e account =
     bind (after_passes k is_valid (start e)) (\<lambda>s. Inr (leftover_of (this s) account))"

lemma adjustLegOneFundedAmount_cases:
  assumes run: "adjustLegOneFundedAmount is_valid e off = Inr (e', off')"
  shows "\<exists>x. getOfferTakerGetsFunded off' = x \<and> getOfferTakerGets off' = getOfferTakerGets off
       \<and> (let fundedSum = getOfferTakerGetsFunded off + leftover_of e (Account off) in
           if getOfferTakerGets off \<le> fundedSum
           then x = getOfferTakerGets off
              \<and> leftover_of e' (Account off) = fundedSum - getOfferTakerGets off
           else x = fundedSum \<and> leftover_of e' (Account off) = 0)"
proof -
  from run have valid: "assertValidLegOneOffer off ''Leg one offer is invalid'' = Inr ()"
    and flag: "\<not> is_fully_funded off" and ok: "is_valid (Account off)"
    by (auto simp: adjustLegOneFundedAmount_def bind_eq_Inr getLeftoverOwnerFunds_eq_Inr)
  from run valid flag ok show ?thesis
    by (auto simp: adjustLegOneFundedAmount_def Let_def setLegOneTakerGetsFunded_ok
        getLeftoverOwnerFunds_ok setLeftoverOwnerFunds_ok resetOwnerFundsLeftover_ok
        amount_add_def amount_subtract_def getOfferTakerGets_def split: if_splits)
qed

lemma adjustLegOneFundedAmount_within:
  assumes "adjustLegOneFundedAmount is_valid e off = Inr (e', off')"
  shows "within_nominal off'"
  using adjustLegOneFundedAmount_cases [OF assms]
  by (auto simp: within_nominal_def Let_def split: if_splits)

lemma adjustLegOneFundedAmount_not_raised:
  assumes "adjustLegOneFundedAmount is_valid e off = Inr (e', off')"
    and "within_nominal off" and "0 \<le> leftover_of e (Account off)"
  shows "leftover_of e' (Account off) \<le> leftover_of e (Account off)"
  using adjustLegOneFundedAmount_cases [OF assms(1)] assms(2,3)
  by (auto simp: within_nominal_def Let_def split: if_splits)

lemma clampLegOneOwnerFunds_within:
  assumes run: "clampLegOneOwnerFunds is_valid e off = Inr (e', off')"
  shows "within_nominal off'"
proof -
  from run have valid: "assertValidLegOneOffer off ''Leg one offer is invalid'' = Inr ()"
    by (auto simp: clampLegOneOwnerFunds_def bind_eq_Inr)
  from run obtain init where init: "initTakerGetsFunded off = Some init"
    by (auto simp: clampLegOneOwnerFunds_def bind_eq_Inr Let_def split: option.splits)
  show ?thesis
  proof (cases "getOfferTakerGets off > init")
    case True
    with run valid init show ?thesis
      by (auto simp: clampLegOneOwnerFunds_def Let_def setLegOneTakerGetsFunded_ok
          within_nominal_def getOfferTakerGets_def)
  next
    case False
    with run valid init show ?thesis
      by (auto simp: clampLegOneOwnerFunds_def Let_def setLegOneTakerGetsFunded_ok
          within_nominal_def getOfferTakerGets_def bind_eq_Inr)
  qed
qed

lemma prepareLegOne_within:
  assumes "prepareLegOne is_valid e off off2 = Inr (e', off')" and "within_nominal off"
  shows "within_nominal off'"
  using assms
  by (auto simp: prepareLegOne_def bind_eq_Inr unclampLegOneOwnerFunds_eq_Inr
      within_nominal_def getOfferTakerGets_def
      split: if_splits dest: adjustLegOneFundedAmount_within)

lemma prepareLegOne_other_accounts:
  assumes "prepareLegOne is_valid e off off2 = Inr (e', off')" and "account \<noteq> Account off"
  shows "leftover_of e' account = leftover_of e account"
  using assms adjustLegOneFundedAmount_account [of is_valid e off e' off' account]
  by (auto simp: prepareLegOne_def bind_eq_Inr split: if_splits)

lemma prepareLegOne_not_raised:
  assumes "prepareLegOne is_valid e off off2 = Inr (e', off')"
    and "within_nominal off" and "0 \<le> leftover_of e (Account off)"
  shows "leftover_of e' (Account off) \<le> leftover_of e (Account off)"
  using assms
  by (auto simp: prepareLegOne_def bind_eq_Inr split: if_splits
      dest: adjustLegOneFundedAmount_not_raised)

lemma getAutobridgedOfferWithClampedLegOne_ledger:
  assumes "getAutobridgedOfferWithClampedLegOne is_valid e off1 off2 = Inr (e', off', ab)"
  shows "leftover_of e account \<le> leftover_of e' account
       \<and> (Account off1 \<noteq> Account off2 \<longrightarrow> e' = e)"
  using assms
  by (auto simp: getAutobridgedOfferWithClampedLegOne_def bind_eq_Inr Let_def split: if_splits
      dest: clampLegOneOwnerFunds_grows)

lemma leftover_of_offers [simp]:
  "leftover_of (e\<lparr>legOneOffers := xs\<rparr>) account = leftover_of e account"
  "leftover_of (e\<lparr>legTwoOffers := ys\<rparr>) account = leftover_of e account"
  by (simp_all add: leftover_of_def)

lemma pairOffers_ledger:
  assumes "pairOffers is_valid s e off1 off2 = Inr s'"
  shows "leftover_of e account \<le> leftover_of (this s') account
       \<and> (Account off1 \<noteq> Account off2 \<longrightarrow> leftover_of (this s') account = leftover_of e account)"
  using assms
  by (auto simp: pairOffers_def bind_eq_Inr Let_def split: if_splits
      dest!: getAutobridgedOfferWithClampedLegOne_ledger [where account = account])

lemma iteration_ledger:
  assumes it: "iteration is_valid s = Inr s'"
    and one: "legOneOffer = legOneOffers (this s) ! legOnePointer s"
    and two: "legTwoOffer = legTwoOffers (this s) ! legTwoPointer s"
  shows "(Account legOneOffer = Account legTwoOffer \<longrightarrow>
            leftover_of (this s) account \<le> leftover_of (this s') account)
       \<and> (Account legOneOffer \<noteq> Account legTwoOffer \<longrightarrow>
            (account \<noteq> Account legOneOffer \<longrightarrow>
               leftover_of (this s') account = leftover_of (this s) account)
          \<and> (within_nominal legOneOffer \<longrightarrow> 0 \<le> leftover_of (this s) (Account legOneOffer) \<longrightarrow>
               leftover_of (this s') (Account legOneOffer)
                 \<le> leftover_of (this s) (Account legOneOffer)))"
proof -
  from it obtain e1 l1 where
    prep: "prepareLegOne is_valid (this s) legOneOffer legTwoOffer = Inr (e1, l1)"
    and pair: "pairOffers is_valid s e1 l1 legTwoOffer = Inr s'"
    by (auto simp: iteration_def Let_def bind_eq_Inr one two)
  have acct: "Account l1 = Account legOneOffer"
    using prepareLegOne_shape [OF prep] by simp
  note led = pairOffers_ledger [OF pair]
  show ?thesis
  proof (intro conjI impI)
    assume same: "Account legOneOffer = Account legTwoOffer"
    with prepareLegOne_same_owner [OF prep] have "e1 = this s"
      by simp
    with led [of account] show "leftover_of (this s) account \<le> leftover_of (this s') account"
      by simp
  next
    assume diff: "Account legOneOffer \<noteq> Account legTwoOffer" and other: "account \<noteq> Account legOneOffer"
    from led [of account] diff acct
    have "leftover_of (this s') account = leftover_of e1 account"
      by simp
    with prepareLegOne_other_accounts [OF prep other]
    show "leftover_of (this s') account = leftover_of (this s) account"
      by simp
  next
    assume diff: "Account legOneOffer \<noteq> Account legTwoOffer"
      and within: "within_nominal legOneOffer"
      and nonneg: "0 \<le> leftover_of (this s) (Account legOneOffer)"
    from led [of "Account legOneOffer"] diff acct
    have "leftover_of (this s') (Account legOneOffer) = leftover_of e1 (Account legOneOffer)"
      by simp
    with prepareLegOne_not_raised [OF prep within nonneg]
    show "leftover_of (this s') (Account legOneOffer) \<le> leftover_of (this s) (Account legOneOffer)"
      by simp
  qed
qed

lemma getAutobridgedOfferWithClampedLegOne_within:
  assumes run: "getAutobridgedOfferWithClampedLegOne is_valid e off1 off2 = Inr (e', off', ab)"
    and within: "within_nominal off1" and pays: "0 \<le> getOfferTakerPaysFunded off2"
  shows "within_nominal off'"
proof (cases "Account off1 = Account off2")
  case True
  with run obtain o1 where "clampLegOneOwnerFunds is_valid e o1 = Inr (e', off')"
    by (auto simp: getAutobridgedOfferWithClampedLegOne_def bind_eq_Inr Let_def)
  then show ?thesis
    by (rule clampLegOneOwnerFunds_within)
next
  case False
  with run within pays show ?thesis
    by (auto simp: getAutobridgedOfferWithClampedLegOne_def bind_eq_Inr Let_def
        setLegOneTakerGetsFunded_eq_Inr within_nominal_def getOfferTakerGets_def
        amount_subtract_def)
qed

lemma getAutobridgedOfferWithClampedLegTwo_pays:
  assumes "getAutobridgedOfferWithClampedLegTwo e off1 off2 = Inr (off', ab)"
  shows "getOfferTakerPaysFunded off'
       = getOfferTakerPaysFunded off2 - getOfferTakerGetsFunded off1"
  using assms
  by (auto simp: getAutobridgedOfferWithClampedLegTwo_def bind_eq_Inr Let_def
      amount_subtract_def)

lemma offers_consistent_ledger_only:
  "ledger_only e e' \<Longrightarrow> offers_consistent e' = offers_consistent e"
  by (simp add: offers_consistent_def ledger_only_fields)

lemma offers_consistent_update:
  assumes "offers_consistent e" and "within_nominal off1" and "0 \<le> getOfferTakerPaysFunded off2"
  shows "offers_consistent (e\<lparr>legOneOffers := (legOneOffers e)[i := off1]\<rparr>)"
    and "offers_consistent (e\<lparr>legOneOffers := (legOneOffers e)[i := off1],
                              legTwoOffers := (legTwoOffers e)[j := off2]\<rparr>)"
  using assms set_update_subset_insert [of "legOneOffers e" i off1]
    set_update_subset_insert [of "legTwoOffers e" j off2]
  by (auto simp: offers_consistent_def)

lemma pairOffers_consistent:
  assumes pair: "pairOffers is_valid s e off1 off2 = Inr s'"
    and cons: "offers_consistent e" and within: "within_nominal off1"
    and pays: "0 \<le> getOfferTakerPaysFunded off2"
  shows "offers_consistent (this s')"
proof -
  let ?g1 = "getOfferTakerGetsFunded off1" and ?p2 = "getOfferTakerPaysFunded off2"
  consider (skip) "is_zero ?g1 \<or> is_zero ?p2"
    | (one) "\<not> is_zero ?g1" "\<not> is_zero ?p2" "?g1 > ?p2"
    | (two) "\<not> is_zero ?g1" "\<not> is_zero ?p2" "?p2 > ?g1"
    | (none) "\<not> is_zero ?g1" "\<not> is_zero ?p2" "?g1 = ?p2"
    by fastforce
  then show ?thesis
  proof cases
    case skip
    with pair offers_consistent_update(1) [OF cons within pays] show ?thesis
      by (auto simp: pairOffers_def Let_def split: if_splits)
  next
    case one
    with pair obtain e1 o1 ab where
      run: "getAutobridgedOfferWithClampedLegOne is_valid e off1 off2 = Inr (e1, o1, ab)"
      and s': "this s' = e1\<lparr>legOneOffers := (legOneOffers e1)[legOnePointer s := o1]\<rparr>"
      by (auto simp: pairOffers_def Let_def bind_eq_Inr)
    have "offers_consistent e1"
      using cons getAutobridgedOfferWithClampedLegOne_ledger_only [OF run]
      by (simp add: offers_consistent_ledger_only)
    moreover have "within_nominal o1"
      using run within pays by (rule getAutobridgedOfferWithClampedLegOne_within)
    ultimately show ?thesis
      using s' pays by (simp add: offers_consistent_update(1))
  next
    case two
    with pair obtain o2 ab where
      run: "getAutobridgedOfferWithClampedLegTwo e off1 off2 = Inr (o2, ab)"
      and s': "this s' = e\<lparr>legOneOffers := (legOneOffers e)[legOnePointer s := off1],
                            legTwoOffers := (legTwoOffers e)[legTwoPointer s := o2]\<rparr>"
      by (auto simp: pairOffers_def Let_def bind_eq_Inr)
    from getAutobridgedOfferWithClampedLegTwo_pays [OF run] two
    have "0 \<le> getOfferTakerPaysFunded o2"
      by simp
    with cons within s' show ?thesis
      by (simp add: offers_consistent_update(2))
  next
    case none
    with pair offers_consistent_update(1) [OF cons within pays] show ?thesis
      by (auto simp: pairOffers_def Let_def bind_eq_Inr)
  qed
qed

lemma iteration_consistent:
  assumes it: "iteration is_valid s = Inr s'" and live: "live s"
    and cons: "offers_consistent (this s)"
  shows "offers_consistent (this s')"
proof -
  let ?l1 = "legOneOffers (this s) ! legOnePointer s"
  let ?l2 = "legTwoOffers (this s) ! legTwoPointer s"
  from it obtain e1 l1 where
    prep: "prepareLegOne is_valid (this s) ?l1 ?l2 = Inr (e1, l1)"
    and pair: "pairOffers is_valid s e1 l1 ?l2 = Inr s'"
    by (auto simp: iteration_def Let_def bind_eq_Inr)
  from live cons have "within_nominal ?l1" and pays: "0 \<le> getOfferTakerPaysFunded ?l2"
    by (simp_all add: live_def offers_consistent_def)
  with prep have within: "within_nominal l1"
    by (simp add: prepareLegOne_within)
  have "offers_consistent e1"
    using cons prepareLegOne_ledger_only [OF prep] by (simp add: offers_consistent_ledger_only)
  from pair this within pays show ?thesis
    by (rule pairOffers_consistent)
qed

lemma after_passes_consistent:
  "after_passes k is_valid s = Inr s' \<Longrightarrow> offers_consistent (this s)
   \<Longrightarrow> offers_consistent (this s')"
proof (induction k arbitrary: s)
  case 0
  then show ?case by simp
next
  case (Suc k)
  show ?case
  proof (cases "live s")
    case False
    with Suc.prems show ?thesis by simp
  next
    case True
    with Suc.prems(1) obtain s1 where it: "iteration is_valid s = Inr s1"
      and rest: "after_passes k is_valid s1 = Inr s'"
      by (auto simp: bind_eq_Inr)
    from iteration_consistent [OF it True Suc.prems(2)] have "offers_consistent (this s1)" .
    with Suc.IH [OF rest] show ?thesis .
  qed
qed

text \<open>
  The composite offer the calculator built by \<open>bridge\<close> emits for a given \<^verbatim>\<open>TakerGets\<close>
  and \<^verbatim>\<open>TakerPays\<close>.
\<close>

definition composite :: "rat \<Rightarrow> rat \<Rightarrow> autobridged_offer" where
  "composite gets pays =
     \<lparr>ab_TakerGets = \<lparr>value = Text gets, currency = ''EUR'', issuer = None\<rparr>,
      ab_TakerPays = \<lparr>value = Text pays, currency = ''USD'', issuer = None\<rparr>,
      ab_quality = Text (pays / gets),
      ab_taker_gets_funded = Text gets,
      ab_taker_pays_funded = Text pays,
      autobridged = True,
      BookDirectory = QualityHex (pays / gets)\<rparr>"

lemma after_passes_ended: "\<not> live s \<Longrightarrow> after_passes k is_valid s = Inr s"
  by (cases k) simp_all

lemma after_passes_add:
  "after_passes (j + k) is_valid s = bind (after_passes j is_valid s) (after_passes k is_valid)"
proof (induction j arbitrary: s)
  case 0
  show ?case by simp
next
  case (Suc j)
  show ?case
  proof (cases "live s")
    case False
    then show ?thesis
      by (simp add: after_passes_ended)
  next
    case True
    then show ?thesis
      using Suc.IH by (cases "iteration is_valid s") simp_all
  qed
qed

text \<open>
  A run of two passes: account A owns the first leg-one offer (nominal 100, funded 80) and
  the first leg-two offer, so the first pass unclamps, reduces the nominal amount to 60 and
  clamp-reconcile credits 80 - 60 = 20 to A; the second pass pairs the rest of that offer
  with B's leg-two offer and moves to A's second leg-one offer, whose funded amount is \<open>x\<close>.
\<close>

lemma two_passes_same_owner_then_other:
  "after_passes 2 nonempty
     (start (bridge [legOne ''A'' 100 50 80 False, legOne ''A'' 100 50 x False]
                    [legTwo ''A'' 20 40 20 True, legTwo ''B'' 50 100 50 True]))
   = Inr \<lparr>this = (bridge
              [(legOne ''A'' 60 30 60 False)
                 \<lparr>TakerPays := AmountObject 30, initTakerGetsFunded := Some 80\<rparr>,
               legOne ''A'' 100 50 x False]
              [legTwo ''A'' 20 40 20 True, legTwo ''B'' 50 100 20 True])
             \<lparr>ownerFundsLeftover := [''A'' \<mapsto> 20]\<rparr>,
          legOnePointer = 1, legTwoPointer = 1,
          offersAutobridged = [composite 20 20, composite 30 30]\<rparr>"
proof -
  let ?s0 = "start (bridge [legOne ''A'' 100 50 80 False, legOne ''A'' 100 50 x False]
                    [legTwo ''A'' 20 40 20 True, legTwo ''B'' 50 100 50 True])"
  let ?s1 = "\<lparr>this = (bridge
              [(legOne ''A'' 60 30 60 False)
                 \<lparr>TakerPays := AmountObject 30, initTakerGetsFunded := Some 80\<rparr>,
               legOne ''A'' 100 50 x False]
              [legTwo ''A'' 20 40 20 True, legTwo ''B'' 50 100 50 True])
             \<lparr>ownerFundsLeftover := [''A'' \<mapsto> 20]\<rparr>,
          legOnePointer = 0, legTwoPointer = 1,
          offersAutobridged = [composite 20 20]\<rparr>"
  let ?s2 = "\<lparr>this = (bridge
              [(legOne ''A'' 60 30 60 False)
                 \<lparr>TakerPays := AmountObject 30, initTakerGetsFunded := Some 80\<rparr>,
               legOne ''A'' 100 50 x False]
              [legTwo ''A'' 20 40 20 True, legTwo ''B'' 50 100 20 True])
             \<lparr>ownerFundsLeftover := [''A'' \<mapsto> 20]\<rparr>,
          legOnePointer = 1, legTwoPointer = 1,
          offersAutobridged = [composite 20 20, composite 30 30]\<rparr>"
  have live0: "live ?s0"
    by (simp add: live_def fixture_defs)
  have live1: "live ?s1"
    by (simp add: live_def fixture_defs)
  have pass1: "iteration nonempty ?s0 = Inr ?s1"
    by (simp add: fixture_defs pass_defs amount_defs accessor_defs compareTo_def composite_def)
  have pass2: "iteration nonempty ?s1 = Inr ?s2"
    by (simp add: fixture_defs pass_defs amount_defs accessor_defs compareTo_def composite_def)
  have "after_passes (Suc (Suc 0)) nonempty ?s0
      = bind (iteration nonempty ?s0) (after_passes (Suc 0) nonempty)"
    using live0 by (simp only: after_passes.simps if_True)
  also have "\<dots> = after_passes (Suc 0) nonempty ?s1"
    by (simp only: pass1 bind_Inr)
  also have "\<dots> = bind (iteration nonempty ?s1) (after_passes 0 nonempty)"
    using live1 by (simp only: after_passes.simps if_True)
  also have "\<dots> = Inr ?s2"
    by (simp only: pass2 bind_Inr after_passes.simps)
  finally show ?thesis
    by (simp only: numeral_2_eq_2)
qed




subsection \<open>The loop ends within \<open>n + m\<close> passes\<close>

lemma loop_within_enough:
  "(length (legOneOffers (this s)) - legOnePointer s)
   + (length (legTwoOffers (this s)) - legTwoPointer s) \<le> k
   \<Longrightarrow> loop_within k is_valid s = Some (calculate_loop is_valid s)"
proof (induction k arbitrary: s)
  case 0
  then have "\<not> live s"
    by (simp add: live_def)
  then show ?case
    by (simp add: calculate_loop.simps)
next
  case (Suc k)
  show ?case
  proof (cases "live s")
    case False
    then show ?thesis
      by (simp add: calculate_loop.simps)
  next
    case True
    show ?thesis
    proof (cases "iteration is_valid s")
      case (Inl err)
      with True show ?thesis
        by (simp add: calculate_loop.simps [of is_valid s])
    next
      case (Inr s1)
      from iteration_advance [OF Inr] True Suc.prems
      have "(length (legOneOffers (this s1)) - legOnePointer s1)
          + (length (legTwoOffers (this s1)) - legTwoPointer s1) \<le> k"
        by (auto simp: live_def)
      from Suc.IH [OF this] True Inr show ?thesis
        by (simp add: calculate_loop.simps [of is_valid s])
    qed
  qed
qed

lemma calculate_loop_end:
  "calculate_loop is_valid s = Inr s' \<Longrightarrow>
   \<not> live s'
   \<and> length (legOneOffers (this s')) = length (legOneOffers (this s))
   \<and> length (legTwoOffers (this s')) = length (legTwoOffers (this s))
   \<and> legOnePointer s \<le> legOnePointer s' \<and> legTwoPointer s \<le> legTwoPointer s'
   \<and> (live s \<longrightarrow> legOnePointer s' \<le> length (legOneOffers (this s))
                \<and> legTwoPointer s' \<le> length (legTwoOffers (this s)))"
proof (induction is_valid s rule: calculate_loop.induct)
  case (1 is_valid s)
  show ?case
  proof (cases "live s")
    case False
    with "1.prems" show ?thesis
      by (simp add: calculate_loop.simps)
  next
    case True
    with "1.prems"(1) obtain s1 where it: "iteration is_valid s = Inr s1"
      and rest: "calculate_loop is_valid s1 = Inr s'"
      by (auto simp: calculate_loop.simps [of is_valid s] split: sum.splits)
    note adv = iteration_advance [OF it]
    note ih = "1.IH" [OF True it rest]
    show ?thesis
    proof (cases "live s1")
      case True
      with adv ih show ?thesis by simp
    next
      case False
      with rest have "s' = s1"
        by (simp add: calculate_loop.simps)
      with adv ih True show ?thesis
        by (auto simp: live_def)
    qed
  qed
qed

text \<open>
  C8. For offer lists of lengths \<open>n\<close> and \<open>m\<close> the loop of \<^verbatim>\<open>calculate\<close> finishes within
  \<open>n + m\<close> passes: run with that budget it gives the result of the loop. No pass moves a
  pointer back and every pass moves at least one forward. The loop does nothing more once
  either pointer is past its list, and on a normal return one of the two legs is exhausted
  with neither pointer beyond the end of its list.
\<close>

theorem calculate_terminates:
  "loop_within (length (legOneOffers e) + length (legTwoOffers e)) is_valid (start e)
     = Some (calculate_loop is_valid (start e))
   \<and> (\<forall>s s'. live s \<longrightarrow> iteration is_valid s = Inr s' \<longrightarrow>
         legOnePointer s \<le> legOnePointer s' \<and> legTwoPointer s \<le> legTwoPointer s'
       \<and> legOnePointer s + legTwoPointer s < legOnePointer s' + legTwoPointer s')
   \<and> (\<forall>s. \<not> live s \<longrightarrow> calculate_loop is_valid s = Inr s)
   \<and> (\<forall>s'. calculate_loop is_valid (start e) = Inr s' \<longrightarrow>
         (legOnePointer s' = length (legOneOffers e) \<or> legTwoPointer s' = length (legTwoOffers e))
       \<and> legOnePointer s' \<le> length (legOneOffers e)
       \<and> legTwoPointer s' \<le> length (legTwoOffers e))"
proof (intro conjI allI impI)
  have "(length (legOneOffers (this (start e))) - legOnePointer (start e))
      + (length (legTwoOffers (this (start e))) - legTwoPointer (start e))
      \<le> length (legOneOffers e) + length (legTwoOffers e)"
    by (simp add: start_def clearOwnerFundsLeftover_def)
  then show "loop_within (length (legOneOffers e) + length (legTwoOffers e)) is_valid (start e)
     = Some (calculate_loop is_valid (start e))"
    by (rule loop_within_enough)
next
  fix s s'
  assume "iteration is_valid s = Inr s'"
  from iteration_advance [OF this]
  show "legOnePointer s \<le> legOnePointer s'" "legTwoPointer s \<le> legTwoPointer s'"
    "legOnePointer s + legTwoPointer s < legOnePointer s' + legTwoPointer s'"
    by simp_all
next
  fix s
  assume "\<not> live s"
  then show "calculate_loop is_valid s = Inr s"
    by (simp add: calculate_loop.simps)
next
  fix s'
  assume loop: "calculate_loop is_valid (start e) = Inr s'"
  from calculate_loop_end [OF this]
  have fin: "\<not> live s'" "length (legOneOffers (this s')) = length (legOneOffers e)"
    "length (legTwoOffers (this s')) = length (legTwoOffers e)"
    and bound: "live (start e) \<longrightarrow> legOnePointer s' \<le> length (legOneOffers e)
                \<and> legTwoPointer s' \<le> length (legTwoOffers e)"
    by (simp_all add: start_def clearOwnerFundsLeftover_def)
  have "(legOnePointer s' = length (legOneOffers e) \<or> legTwoPointer s' = length (legTwoOffers e))
      \<and> legOnePointer s' \<le> length (legOneOffers e)
      \<and> legTwoPointer s' \<le> length (legTwoOffers e)"
  proof (cases "live (start e)")
    case True
    with bound fin show ?thesis
      by (auto simp: live_def)
  next
    case False
    with loop have "s' = start e"
      by (simp add: calculate_loop.simps)
    with False show ?thesis
      by (auto simp: live_def start_def clearOwnerFundsLeftover_def)
  qed
  then show "legOnePointer s' = length (legOneOffers e) \<or> legTwoPointer s' = length (legTwoOffers e)"
    "legOnePointer s' \<le> length (legOneOffers e)" "legTwoPointer s' \<le> length (legTwoOffers e)"
    by simp_all
qed

theorem calculate_terminates_witness:
  "loop_within 3 nonempty
     (start (bridge [legOne ''A'' 100 50 100 True]
                    [legTwo ''B'' 20 40 20 True, legTwo ''C'' 30 60 30 True]))
     = Some (calculate_loop nonempty
         (start (bridge [legOne ''A'' 100 50 100 True]
                        [legTwo ''B'' 20 40 20 True, legTwo ''C'' 30 60 30 True])))
   \<and> (\<exists>s'. calculate_loop nonempty
         (start (bridge [legOne ''A'' 100 50 100 True]
                        [legTwo ''B'' 20 40 20 True, legTwo ''C'' 30 60 30 True])) = Inr s'
        \<and> legOnePointer s' = 1 \<and> legTwoPointer s' = 2
        \<and> length (offersAutobridged s') = 2)"
proof -
  let ?e = "bridge [legOne ''A'' 100 50 100 True]
                   [legTwo ''B'' 20 40 20 True, legTwo ''C'' 30 60 30 True]"
  have len: "length (legOneOffers ?e) + length (legTwoOffers ?e) = 3"
    by (simp add: bridge_def AutobridgeCalculator_def)
  have run: "\<exists>s'. calculate_loop nonempty (start ?e) = Inr s'
        \<and> legOnePointer s' = 1 \<and> legTwoPointer s' = 2
        \<and> length (offersAutobridged s') = 2"
    by (simp add: calculate_loop.simps live_def fixture_defs pass_defs amount_defs accessor_defs
        compareTo_def)
  from calculate_terminates [of ?e nonempty] len run show ?thesis
    by simp
qed

end
